theory Spec2Isabelle
  imports Main "HOL-Library.AList"
begin

section \<open>Python values, dictionaries and errors\<close>

text \<open>
  The module \<^verbatim>\<open>bcbio/pipeline/lane.py\<close> works on YAML-loaded Python data.
  A leaf value of a configuration mapping is \<open>None\<close>, a boolean, an integer or a
  string.  Lane ids, barcode ids and split indices are \<open>None\<close>, an integer or a
  string (they are used as dictionary keys and rendered with \<^verbatim>\<open>%s\<close>).
  A dictionary is an association list in iteration order; \<open>map_of\<close> is the lookup
  and \<open>AList.update\<close> the item assignment \<^verbatim>\<open>d[k] = v\<close>.
\<close>

datatype pyval = PNone | PBool bool | PInt int | PStr string

datatype atom = ANone | AInt int | AStr string

text \<open>
  Exceptions: the two that the module's own indexing can raise, and \<open>Raised e\<close> for an
  exception \<open>e\<close> that comes out of a collaborator and propagates unchanged.
\<close>

type_synonym exn = string

datatype error = IndexError | KeyError | Raised exn

definition collab :: "exn + 'a \<Rightarrow> error + 'a" where
  "collab r = (case r of Inl e \<Rightarrow> Inl (Raised e) | Inr x \<Rightarrow> Inr x)"

type_synonym pydict = "(string \<times> pyval) list"

text \<open>Python truthiness, as used by \<^verbatim>\<open>if x:\<close>, \<^verbatim>\<open>not x\<close> and \<^verbatim>\<open>and\<close>.\<close>

fun truthy :: "pyval \<Rightarrow> bool" where
  "truthy PNone = False"
| "truthy (PBool b) = b"
| "truthy (PInt i) = (i \<noteq> 0)"
| "truthy (PStr s) = (s \<noteq> [])"

text \<open>\<^verbatim>\<open>d.get(k, default)\<close> and \<^verbatim>\<open>d.has_key(k)\<close>.\<close>

definition dict_get :: "('k \<times> 'v) list \<Rightarrow> 'k \<Rightarrow> 'v \<Rightarrow> 'v" where
  "dict_get d k dflt = (case map_of d k of None \<Rightarrow> dflt | Some v \<Rightarrow> v)"

definition has_key :: "('k \<times> 'v) list \<Rightarrow> 'k \<Rightarrow> bool" where
  "has_key d k = (map_of d k \<noteq> None)"

text \<open>
  \<^verbatim>\<open>d.iteritems()\<close>: every key of the dictionary once, with the value the lookup
  returns for it.
\<close>

definition iteritems :: "('k \<times> 'v) list \<Rightarrow> ('k \<times> 'v) list" where
  "iteritems d = AList.clearjunk d"

text \<open>Decimal rendering of integers, and \<^verbatim>\<open>"%s" % x\<close> / \<^verbatim>\<open>"{0}".format(x)\<close>.\<close>

definition digit_char :: "nat \<Rightarrow> char" where
  "digit_char d = ''0123456789'' ! d"

fun str_nat :: "nat \<Rightarrow> string" where
  "str_nat n = (if n < 10 then [digit_char n] else str_nat (n div 10) @ [digit_char (n mod 10)])"

declare str_nat.simps [simp del]

definition str_int :: "int \<Rightarrow> string" where
  "str_int i = (if i < 0 then CHR ''-'' # str_nat (nat (- i)) else str_nat (nat i))"

fun py_str :: "atom \<Rightarrow> string" where
  "py_str ANone = ''None''"
| "py_str (AInt i) = str_int i"
| "py_str (AStr s) = s"

text \<open>\<^verbatim>\<open>s.endswith(suffix)\<close>.\<close>

definition endswith :: "string \<Rightarrow> string \<Rightarrow> bool" where
  "endswith s sfx = (length sfx \<le> length s \<and> drop (length s - length sfx) s = sfx)"

section \<open>Data model\<close>

text \<open>
  The configuration: \<^verbatim>\<open>config["algorithm"]\<close> and \<^verbatim>\<open>config["custom_algorithms"]\<close>
  are read with item access, so they are fields that are always there;
  \<^verbatim>\<open>config.get("distributed", {})\<close> allows the key to be missing.  The keys of
  \<open>custom_algorithms\<close> are analysis names; the lookup key is \<open>None\<close> when a sample
  has no \<open>analysis\<close>.
\<close>

record config =
  algorithm :: pydict
  custom_algorithms :: "(string option \<times> pydict) list"
  distributed :: "pydict option"

text \<open>
  A sample descriptor (\<open>lane_info\<close>, \<open>item\<close>): the keys read with item access are
  fields, the keys read with \<^verbatim>\<open>.get\<close> are optional.
\<close>

record lane_info =
  lane :: atom
  barcode_id :: atom
  description :: string
  name :: "string option"
  analysis :: "string option"
  info_algorithm :: "pydict option"
  genome_build :: string

record dirs =
  dirs_fastq :: string
  dirs_work :: string

type_synonym bc_files = "(atom \<times> string \<times> string option) list"

type_synonym split_unit = "string \<times> string option \<times> atom"

text \<open>The tuple appended to \<open>out\<close> in \<open>process_lane\<close> and returned by \<open>trim_lane\<close>.\<close>

record dispatch_record =
  dr_fastq1 :: string
  dr_fastq2 :: "string option"
  dr_info :: lane_info
  dr_lane_name :: string
  dr_lane_desc :: string
  dr_dirs :: dirs
  dr_config :: config

text \<open>The dictionary returned by \<open>process_alignment\<close>.\<close>

record alignment_result =
  ar_fastq :: "string \<times> string option"
  ar_out_bam :: string
  ar_info :: lane_info
  ar_config :: config

text \<open>
  The functions imported from other modules and from the standard library are
  parameters of the model.  A collaborator that raises \<open>e\<close> returns \<open>Inl e\<close>.
  \<open>run_picard_sort\<close> stands for \<^verbatim>\<open>broad.runner_from_config(config).run_fn("picard_sort", ...)\<close>.
\<close>

record collaborators =
  get_fastq_files :: "string \<Rightarrow> string \<Rightarrow> lane_info \<Rightarrow> string \<Rightarrow> dirs \<Rightarrow> config
                      \<Rightarrow> exn + (string \<times> string option)"
  split_by_barcode :: "string \<Rightarrow> string option \<Rightarrow> lane_info list \<Rightarrow> string \<Rightarrow> dirs \<Rightarrow> config
                      \<Rightarrow> exn + bc_files"
  split_read_files :: "string \<Rightarrow> string option \<Rightarrow> lane_info \<Rightarrow> pyval \<Rightarrow> string \<Rightarrow> dirs \<Rightarrow> config
                      \<Rightarrow> exn + split_unit list"
  safe_makedir :: "string \<Rightarrow> exn + string"
  brun_trim_fastq :: "string list \<Rightarrow> dirs \<Rightarrow> config \<Rightarrow> exn + string list"
  cutadapt_trim :: "string list \<Rightarrow> dirs \<Rightarrow> config \<Rightarrow> exn + string list"
  align_to_sort_bam :: "string \<Rightarrow> string option \<Rightarrow> string \<Rightarrow> pyval \<Rightarrow> string \<Rightarrow> string \<Rightarrow> dirs
                      \<Rightarrow> config \<Rightarrow> exn + string"
  run_picard_sort :: "config \<Rightarrow> string \<Rightarrow> pyval \<Rightarrow> string \<Rightarrow> exn + string"
  os_path_exists :: "string \<Rightarrow> bool"
  os_path_join :: "string list \<Rightarrow> string"
  os_path_basename :: "string \<Rightarrow> string"
  os_path_splitext :: "string \<Rightarrow> string \<times> string"

section \<open>\<open>_update_config_w_custom\<close>\<close>

definition name_remaps :: "(string option \<times> string option list) list" where
  "name_remaps =
     [(Some ''variant'', [Some ''SNP calling'', Some ''variant'']),
      (Some ''SNP calling'', [Some ''SNP calling'', Some ''variant''])]"

text \<open>
  On immutable values \<^verbatim>\<open>copy.deepcopy\<close> returns an equal value.  What it means
  for object identity is the subject of the store model further down, which is shown to
  compute the same configuration.
\<close>

definition deepcopy :: "config \<Rightarrow> config" where
  "deepcopy c = c"

text \<open>\<^verbatim>\<open>for key, val in d.iteritems(): config["algorithm"][key] = val\<close>\<close>

definition overlay :: "pydict \<Rightarrow> config \<Rightarrow> config" where
  "overlay d c =
     fold (\<lambda>(key, val) c. c\<lparr>algorithm := AList.update key val (algorithm c)\<rparr>) (iteritems d) c"

text \<open>The body of the loop over the resolved analysis types.\<close>

definition apply_custom :: "string option \<Rightarrow> config \<Rightarrow> config" where
  "apply_custom analysis_type c =
     (case map_of (custom_algorithms c) analysis_type of
        None \<Rightarrow> c
      | Some custom \<Rightarrow> if custom \<noteq> [] then overlay custom c else c)"

definition update_config_w_custom :: "config \<Rightarrow> lane_info \<Rightarrow> config" where
  "update_config_w_custom c lane_info =
     (let c = deepcopy c;
          base_name = analysis lane_info;
          c = fold apply_custom (dict_get name_remaps base_name [base_name]) c
      in overlay (case info_algorithm lane_info of None \<Rightarrow> [] | Some a \<Rightarrow> a) c)"

section \<open>\<open>_prep_fastq_files\<close> and \<open>process_lane\<close>\<close>

text \<open>The local \<open>split_size\<close> of \<open>_prep_fastq_files\<close>.\<close>

definition split_size :: "config \<Rightarrow> pyval" where
  "split_size c =
     dict_get (case distributed c of None \<Rightarrow> [] | Some d \<Rightarrow> d) ''align_split_size''
       (dict_get (algorithm c) ''align_split_size'' PNone)"

definition prep_fastq_files ::
  "collaborators \<Rightarrow> lane_info \<Rightarrow> bc_files \<Rightarrow> dirs \<Rightarrow> config \<Rightarrow> error + split_unit list" where
  "prep_fastq_files C item bcf ds c =
     (case map_of bcf (barcode_id item) of
        None \<Rightarrow> Inl KeyError
      | Some (fastq1, fastq2) \<Rightarrow>
          if truthy (split_size c) then
            (case collab (safe_makedir C (os_path_join C [dirs_work ds, ''align_splitprep'', description item])) of
               Inl e \<Rightarrow> Inl e
             | Inr split_dir \<Rightarrow>
                 collab (split_read_files C fastq1 fastq2 item (split_size c) split_dir ds c))
          else Inr [(fastq1, fastq2, ANone)])"

text \<open>The body of the inner loop of \<open>process_lane\<close>: the tuple built for one split unit.\<close>

definition lane_record :: "string \<Rightarrow> dirs \<Rightarrow> config \<Rightarrow> lane_info \<Rightarrow> split_unit \<Rightarrow> dispatch_record" where
  "lane_record lane_name ds c item u =
     (case u of (fastq1, fastq2, lane_ext) \<Rightarrow>
        let cur_lane_name = lane_name;
            cur_lane_desc = description item;
            cur_lane_desc =
              (if (case name item of None \<Rightarrow> False | Some n \<Rightarrow> n \<noteq> [])
                  \<and> truthy (dict_get (algorithm c) ''include_short_name'' (PBool True))
               then (case name item of None \<Rightarrow> cur_lane_desc | Some n \<Rightarrow> n @ '' : '' @ cur_lane_desc)
               else cur_lane_desc);
            cur_lane_name =
              (if barcode_id item \<noteq> ANone then cur_lane_name @ ''_'' @ py_str (barcode_id item)
               else cur_lane_name);
            cur_lane_name =
              (if lane_ext \<noteq> ANone then cur_lane_name @ ''_s'' @ py_str lane_ext else cur_lane_name)
        in \<lparr>dr_fastq1 = fastq1, dr_fastq2 = fastq2, dr_info = item, dr_lane_name = cur_lane_name,
            dr_lane_desc = cur_lane_desc, dr_dirs = ds, dr_config = c\<rparr>)"

text \<open>
  The loop \<^verbatim>\<open>for item in lane_items\<close>: the variable \<open>config\<close> is rebound by every
  iteration and \<open>out\<close> collects the tuples.
\<close>

fun lane_loop ::
  "collaborators \<Rightarrow> bc_files \<Rightarrow> string \<Rightarrow> dirs \<Rightarrow> config \<Rightarrow> dispatch_record list \<Rightarrow> lane_info list
   \<Rightarrow> error + dispatch_record list" where
  "lane_loop C bcf lane_name ds c out [] = Inr out"
| "lane_loop C bcf lane_name ds c out (item # items) =
     (let c = update_config_w_custom c item in
      if has_key bcf (barcode_id item) then
        (case prep_fastq_files C item bcf ds c of
           Inl e \<Rightarrow> Inl e
         | Inr units \<Rightarrow>
             lane_loop C bcf lane_name ds c (out @ map (lane_record lane_name ds c item) units) items)
      else lane_loop C bcf lane_name ds c out items)"

definition base_lane_name :: "lane_info \<Rightarrow> string \<Rightarrow> string \<Rightarrow> string" where
  "base_lane_name item0 fc_date fc_name = py_str (lane item0) @ ''_'' @ fc_date @ ''_'' @ fc_name"

definition process_lane ::
  "collaborators \<Rightarrow> lane_info list \<Rightarrow> string \<Rightarrow> string \<Rightarrow> dirs \<Rightarrow> config
   \<Rightarrow> error + dispatch_record list" where
  "process_lane C lane_items fc_name fc_date ds c =
     (case lane_items of
        [] \<Rightarrow> Inl IndexError
      | item0 # _ \<Rightarrow>
          let lane_name = base_lane_name item0 fc_date fc_name in
          (case collab (get_fastq_files C (dirs_fastq ds) (dirs_work ds) item0 fc_name ds
                  (update_config_w_custom c item0)) of
             Inl e \<Rightarrow> Inl e
           | Inr (full_fastq1, full_fastq2) \<Rightarrow>
               (case collab (split_by_barcode C full_fastq1 full_fastq2 lane_items lane_name ds c) of
                  Inl e \<Rightarrow> Inl e
                | Inr bcf \<Rightarrow> lane_loop C bcf lane_name ds c [] lane_items)))"

section \<open>\<open>trim_lane\<close>\<close>

text \<open>
  \<open>trim_lane\<close> returns, next to its result, the calls it made to the trimming
  collaborators, in order, each with the list of files it passed.
\<close>

datatype trim_call = BrunTrimFastq "string list" | CutadaptTrim "string list"

fun trim_call_files :: "trim_call \<Rightarrow> string list" where
  "trim_call_files (BrunTrimFastq fs) = fs"
| "trim_call_files (CutadaptTrim fs) = fs"

text \<open>\<^verbatim>\<open>[x for x in [fastq1, fastq2] if x is not None]\<close>; \<open>fastq1\<close> is a path.\<close>

definition to_trim :: "string \<Rightarrow> string option \<Rightarrow> string list" where
  "to_trim fastq1 fastq2 = fastq1 # (case fastq2 of None \<Rightarrow> [] | Some f \<Rightarrow> [f])"

text \<open>
  \<^verbatim>\<open>fastq1 = out_files[0]\<close>, then \<^verbatim>\<open>fastq2 = out_files[1]\<close> when \<open>fastq2\<close> is not
  \<open>None\<close>; an index out of range raises.
\<close>

definition trim_result ::
  "string list \<Rightarrow> string option \<Rightarrow> lane_info \<Rightarrow> string \<Rightarrow> string \<Rightarrow> dirs \<Rightarrow> config
   \<Rightarrow> error + dispatch_record list" where
  "trim_result out_files fastq2 info lane_name lane_desc ds c =
     (case out_files of
        [] \<Rightarrow> Inl IndexError
      | f1 # rest \<Rightarrow>
          (case fastq2 of
             None \<Rightarrow>
               Inr [\<lparr>dr_fastq1 = f1, dr_fastq2 = None, dr_info = info, dr_lane_name = lane_name,
                     dr_lane_desc = lane_desc, dr_dirs = ds, dr_config = c\<rparr>]
           | Some _ \<Rightarrow>
               (case rest of
                  [] \<Rightarrow> Inl IndexError
                | f2 # _ \<Rightarrow>
                    Inr [\<lparr>dr_fastq1 = f1, dr_fastq2 = Some f2, dr_info = info,
                          dr_lane_name = lane_name, dr_lane_desc = lane_desc, dr_dirs = ds,
                          dr_config = c\<rparr>])))"

text \<open>
  With any other trimmer \<^verbatim>\<open>out_files = [fastq1, fastq2]\<close>, so the two assignments
  after the branch give \<open>fastq1\<close> and \<open>fastq2\<close> their own values back.
\<close>

definition trim_lane ::
  "collaborators \<Rightarrow> string \<Rightarrow> string option \<Rightarrow> lane_info \<Rightarrow> string \<Rightarrow> string \<Rightarrow> dirs \<Rightarrow> config
   \<Rightarrow> trim_call list \<times> (error + dispatch_record list)" where
  "trim_lane C fastq1 fastq2 info lane_name lane_desc ds c =
     (if \<not> truthy (dict_get (algorithm c) ''trim_reads'' (PBool False)) then
        ([], Inr [\<lparr>dr_fastq1 = fastq1, dr_fastq2 = fastq2, dr_info = info, dr_lane_name = lane_name,
                   dr_lane_desc = lane_desc, dr_dirs = ds, dr_config = c\<rparr>])
      else
        let trimmer = dict_get (algorithm c) ''trimmer'' (PStr ''low_quality'') in
        if trimmer = PStr ''low_quality'' then
          ([BrunTrimFastq (to_trim fastq1 fastq2)],
           (case collab (brun_trim_fastq C (to_trim fastq1 fastq2) ds c) of
              Inl e \<Rightarrow> Inl e
            | Inr out_files \<Rightarrow> trim_result out_files fastq2 info lane_name lane_desc ds c))
        else if trimmer = PStr ''adapter'' then
          ([CutadaptTrim (to_trim fastq1 fastq2)],
           (case collab (cutadapt_trim C (to_trim fastq1 fastq2) ds c) of
              Inl e \<Rightarrow> Inl e
            | Inr out_files \<Rightarrow> trim_result out_files fastq2 info lane_name lane_desc ds c))
        else
          ([], Inr [\<lparr>dr_fastq1 = fastq1, dr_fastq2 = fastq2, dr_info = info,
                     dr_lane_name = lane_name, dr_lane_desc = lane_desc, dr_dirs = ds,
                     dr_config = c\<rparr>]))"

section \<open>\<open>process_alignment\<close>\<close>

definition process_alignment ::
  "collaborators \<Rightarrow> string \<Rightarrow> string option \<Rightarrow> lane_info \<Rightarrow> string \<Rightarrow> string \<Rightarrow> dirs \<Rightarrow> config
   \<Rightarrow> error + alignment_result list" where
  "process_alignment C fastq1 fastq2 info lane_name lane_desc ds c =
     (let aligner = dict_get (algorithm c) ''aligner'' PNone;
          out_bam = [] in
      case
        (if os_path_exists C fastq1 \<and> truthy aligner then
           collab (align_to_sort_bam C fastq1 fastq2 (genome_build info) aligner lane_name lane_desc
                     ds c)
         else if os_path_exists C fastq1 \<and> endswith fastq1 ''.bam'' then
           (let sort_method = dict_get (algorithm c) ''bam_sort'' PNone in
            if truthy sort_method then
              (let out_file = os_path_join C [dirs_work ds,
                     fst (os_path_splitext C (os_path_basename C fastq1)) @ ''-sort.bam'']
               in collab (run_picard_sort C c fastq1 sort_method out_file))
            else Inr fastq1)
         else Inr out_bam)
      of
        Inl e \<Rightarrow> Inl e
      | Inr out_bam \<Rightarrow>
          Inr [\<lparr>ar_fastq = (fastq1, fastq2), ar_out_bam = out_bam, ar_info = info, ar_config = c\<rparr>])"

section \<open>\<open>_update_config_w_custom\<close> on a store of dictionary objects\<close>

text \<open>
  Whether \<open>_update_config_w_custom\<close> changes what its caller passed in depends on which
  dictionary objects are shared.  Here the mappings that carry algorithm options (the
  configuration's \<open>algorithm\<close> and \<open>distributed\<close>, every bundle of \<open>custom_algorithms\<close>
  and a sample's \<open>algorithm\<close>) are objects in a store, addressed by their index.  The
  function assigns only to \<^verbatim>\<open>config["algorithm"][key]\<close>; the outer mappings, which
  it only reads, are records of addresses.  Reading or writing an address outside the
  store gives \<open>None\<close>: no Python program can hold such a reference.
\<close>

type_synonym addr = nat

type_synonym store = "pydict list"

record config_refs =
  algorithm_at :: addr
  custom_algorithms_at :: "(string option \<times> addr) list"
  distributed_at :: "addr option"

record lane_info_refs =
  analysis_in :: "string option"
  algorithm_in :: "addr option"

definition store_get :: "store \<Rightarrow> addr \<Rightarrow> pydict option" where
  "store_get s a = (if a < length s then Some (s ! a) else None)"

text \<open>\<^verbatim>\<open>d[key] = val\<close> for the dictionary object \<open>d\<close> at address \<open>a\<close>.\<close>

definition setitem_at :: "store \<Rightarrow> addr \<Rightarrow> string \<Rightarrow> pyval \<Rightarrow> store option" where
  "setitem_at s a key val =
     (if a < length s then Some (s[a := AList.update key val (s ! a)]) else None)"

text \<open>
  \<^verbatim>\<open>copy.deepcopy\<close> (standard library): every dictionary object reached is copied
  to a new object once; the memo maps an object already copied to its copy, so objects
  shared in the original are shared in the copy.
\<close>

type_synonym memo = "(addr \<times> addr) list"

definition copy_dict :: "addr \<Rightarrow> store \<times> memo \<Rightarrow> (addr \<times> store \<times> memo) option" where
  "copy_dict a sm =
     (case sm of (s, m) \<Rightarrow>
        (case map_of m a of
           Some b \<Rightarrow> Some (b, s, m)
         | None \<Rightarrow>
             (case store_get s a of
                None \<Rightarrow> None
              | Some d \<Rightarrow> Some (length s, s @ [d], (a, length s) # m))))"

fun copy_bundles ::
  "(string option \<times> addr) list \<Rightarrow> store \<times> memo
   \<Rightarrow> ((string option \<times> addr) list \<times> store \<times> memo) option" where
  "copy_bundles [] sm = Some ([], sm)"
| "copy_bundles ((k, a) # bs) sm =
     (case copy_dict a sm of
        None \<Rightarrow> None
      | Some (b, sm1) \<Rightarrow>
          (case copy_bundles bs sm1 of
             None \<Rightarrow> None
           | Some (bs', sm2) \<Rightarrow> Some ((k, b) # bs', sm2)))"

definition deepcopy_store :: "store \<Rightarrow> config_refs \<Rightarrow> (config_refs \<times> store) option" where
  "deepcopy_store s c =
     (case copy_dict (algorithm_at c) (s, []) of
        None \<Rightarrow> None
      | Some (a', sm1) \<Rightarrow>
          (case copy_bundles (custom_algorithms_at c) sm1 of
             None \<Rightarrow> None
           | Some (bs', sm2) \<Rightarrow>
               (case distributed_at c of
                  None \<Rightarrow>
                    Some (\<lparr>algorithm_at = a', custom_algorithms_at = bs', distributed_at = None\<rparr>,
                          fst sm2)
                | Some d \<Rightarrow>
                    (case copy_dict d sm2 of
                       None \<Rightarrow> None
                     | Some (d', sm3) \<Rightarrow>
                         Some (\<lparr>algorithm_at = a', custom_algorithms_at = bs',
                                 distributed_at = Some d'\<rparr>, fst sm3)))))"

text \<open>
  \<^verbatim>\<open>for key, val in items: config["algorithm"][key] = val\<close>, where \<open>dst\<close> is the
  address of \<^verbatim>\<open>config["algorithm"]\<close>.
\<close>

fun setitems_at :: "(string \<times> pyval) list \<Rightarrow> addr \<Rightarrow> store \<Rightarrow> store option" where
  "setitems_at [] dst s = Some s"
| "setitems_at ((key, val) # kvs) dst s =
     (case setitem_at s dst key val of
        None \<Rightarrow> None
      | Some s' \<Rightarrow> setitems_at kvs dst s')"

definition overlay_store :: "pydict \<Rightarrow> addr \<Rightarrow> store \<Rightarrow> store option" where
  "overlay_store d dst s = setitems_at (iteritems d) dst s"

definition apply_custom_store :: "config_refs \<Rightarrow> string option \<Rightarrow> store \<Rightarrow> store option" where
  "apply_custom_store c analysis_type s =
     (case map_of (custom_algorithms_at c) analysis_type of
        None \<Rightarrow> Some s
      | Some a \<Rightarrow>
          (case store_get s a of
             None \<Rightarrow> None
           | Some custom \<Rightarrow>
               if custom \<noteq> [] then overlay_store custom (algorithm_at c) s else Some s))"

fun apply_customs_store :: "config_refs \<Rightarrow> string option list \<Rightarrow> store \<Rightarrow> store option" where
  "apply_customs_store c [] s = Some s"
| "apply_customs_store c (t # ts) s =
     (case apply_custom_store c t s of
        None \<Rightarrow> None
      | Some s' \<Rightarrow> apply_customs_store c ts s')"

definition update_config_w_custom_store ::
  "store \<Rightarrow> config_refs \<Rightarrow> lane_info_refs \<Rightarrow> (config_refs \<times> store) option" where
  "update_config_w_custom_store s c lane_info =
     (case deepcopy_store s c of
        None \<Rightarrow> None
      | Some (c', s1) \<Rightarrow>
          let base_name = analysis_in lane_info in
          (case apply_customs_store c' (dict_get name_remaps base_name [base_name]) s1 of
             None \<Rightarrow> None
           | Some s2 \<Rightarrow>
               (case algorithm_in lane_info of
                  None \<Rightarrow> Some (c', s2)
                | Some a \<Rightarrow>
                    (case store_get s2 a of
                       None \<Rightarrow> None
                     | Some ov \<Rightarrow>
                         (case overlay_store ov (algorithm_at c') s2 of
                            None \<Rightarrow> None
                          | Some s3 \<Rightarrow> Some (c', s3))))))"

section \<open>Notions used in the statements\<close>

text \<open>What \<open>process_lane\<close> appends to the base lane name for a barcode id.\<close>

definition barcode_suffix :: "atom \<Rightarrow> string" where
  "barcode_suffix b = (if b \<noteq> ANone then ''_'' @ py_str b else [])"

text \<open>
  No splitting on a lane: the split size is not truthy in the configuration that each
  iteration of the loop of \<open>process_lane\<close> works with.
\<close>

fun splitting_off :: "config \<Rightarrow> lane_info list \<Rightarrow> bool" where
  "splitting_off c [] = True"
| "splitting_off c (item # items) =
     (let c = update_config_w_custom c item in \<not> truthy (split_size c) \<and> splitting_off c items)"

text \<open>What \<open>process_lane\<close> appends to the lane name for a split index.\<close>

definition split_suffix :: "atom \<Rightarrow> string" where
  "split_suffix lane_ext = (if lane_ext \<noteq> ANone then ''_s'' @ py_str lane_ext else [])"

text \<open>
  The units of one call of \<open>process_lane\<close>: for every sample whose barcode is in the
  demultiplexer's map, in input order, the units of its split plan, each with the sample
  and the configuration the loop holds for it.
\<close>

fun lane_units ::
  "collaborators \<Rightarrow> bc_files \<Rightarrow> dirs \<Rightarrow> config \<Rightarrow> lane_info list
   \<Rightarrow> error + (lane_info \<times> config \<times> split_unit) list" where
  "lane_units C bcf ds c [] = Inr []"
| "lane_units C bcf ds c (item # items) =
     (let c = update_config_w_custom c item in
      if has_key bcf (barcode_id item) then
        (case prep_fastq_files C item bcf ds c of
           Inl e \<Rightarrow> Inl e
         | Inr units \<Rightarrow>
             (case lane_units C bcf ds c items of
                Inl e \<Rightarrow> Inl e
              | Inr rest \<Rightarrow> Inr (map (\<lambda>u. (item, c, u)) units @ rest)))
      else lane_units C bcf ds c items)"

text \<open>The addresses a configuration refers to, and references that are inside the store.\<close>

definition config_addrs :: "config_refs \<Rightarrow> addr list" where
  "config_addrs c =
     algorithm_at c # map snd (custom_algorithms_at c)
     @ (case distributed_at c of None \<Rightarrow> [] | Some d \<Rightarrow> [d])"

definition valid_config :: "store \<Rightarrow> config_refs \<Rightarrow> bool" where
  "valid_config s c = list_all (\<lambda>a. a < length s) (config_addrs c)"

definition valid_info :: "store \<Rightarrow> lane_info_refs \<Rightarrow> bool" where
  "valid_info s lane_info = (case algorithm_in lane_info of None \<Rightarrow> True | Some a \<Rightarrow> a < length s)"

text \<open>A memo of \<open>deepcopy\<close> whose copies all lie in the store, at or above address \<open>n\<close>.\<close>

definition memo_fresh :: "nat \<Rightarrow> store \<Rightarrow> memo \<Rightarrow> bool" where
  "memo_fresh n s m = list_all (\<lambda>(a, b). n \<le> b \<and> b < length s) m"

text \<open>
  The configuration and the sample descriptor that a store holds for given references,
  as values; a configuration whose \<open>algorithm\<close> object is not also one of its bundles
  or its \<open>distributed\<close> object; and a memo of \<open>deepcopy\<close> over the store \<open>s0\<close> of before
  the call: every entry maps an object of \<open>s0\<close> to a new object with the same contents,
  and no two objects to the same copy.
\<close>

definition config_of :: "store \<Rightarrow> config_refs \<Rightarrow> config" where
  "config_of s c =
     \<lparr>algorithm = s ! algorithm_at c,
      custom_algorithms = map (\<lambda>(k, a). (k, s ! a)) (custom_algorithms_at c),
      distributed = map_option ((!) s) (distributed_at c)\<rparr>"

definition info_of :: "store \<Rightarrow> lane_info_refs \<Rightarrow> lane_info \<Rightarrow> lane_info" where
  "info_of s r item =
     item\<lparr>analysis := analysis_in r, info_algorithm := map_option ((!) s) (algorithm_in r)\<rparr>"

definition unshared_algorithm :: "config_refs \<Rightarrow> bool" where
  "unshared_algorithm c = (algorithm_at c \<notin> set (tl (config_addrs c)))"

definition memo_copies :: "store \<Rightarrow> store \<Rightarrow> memo \<Rightarrow> bool" where
  "memo_copies s0 s m =
     (length s0 \<le> length s \<and> take (length s0) s = s0
      \<and> (\<forall>(a, b) \<in> set m. a < length s0 \<and> length s0 \<le> b \<and> b < length s \<and> s ! b = s0 ! a)
      \<and> inj_on snd (set m))"

section \<open>A concrete lane\<close>

text \<open>
  The scenario of the specification: flow cell \<open>FC1\<close> of \<open>2020-01-01\<close>, lane \<open>1\<close>,
  sample \<open>sampleA\<close> with barcode \<open>A\<close>, demultiplexed into \<open>r1.fq\<close> and \<open>r2.fq\<close>.  The
  splitter yields two chunks, the trimmers and tools return paths derived from their
  arguments, and every path but \<open>missing.fq\<close> exists.
\<close>

definition scenario_dirs :: dirs where
  "scenario_dirs = \<lparr>dirs_fastq = ''fastq'', dirs_work = ''work''\<rparr>"

definition scenario_config :: config where
  "scenario_config = \<lparr>algorithm = [], custom_algorithms = [], distributed = None\<rparr>"

definition sample_A :: lane_info where
  "sample_A =
     \<lparr>lane = AStr ''1'', barcode_id = AStr ''A'', description = ''sampleA'', name = None,
      analysis = None, info_algorithm = None, genome_build = ''hg19''\<rparr>"

definition scenario_collab :: collaborators where
  "scenario_collab =
     \<lparr>get_fastq_files = (\<lambda>_ _ _ _ _ _. Inr (''lane_1.fq'', Some ''lane_2.fq'')),
      split_by_barcode = (\<lambda>_ _ _ _ _ _. Inr [(AStr ''A'', (''r1.fq'', Some ''r2.fq''))]),
      split_read_files = (\<lambda>f1 f2 _ _ _ _ _. Inr [(f1, f2, AInt 0), (f1, f2, AInt 1)]),
      safe_makedir = (\<lambda>d. Inr d),
      brun_trim_fastq = (\<lambda>fs _ _. Inr (map (\<lambda>f. ''q_'' @ f) fs)),
      cutadapt_trim = (\<lambda>fs _ _. Inr (map (\<lambda>f. ''a_'' @ f) fs)),
      align_to_sort_bam = (\<lambda>_ _ _ _ ln _ _ _. Inr (ln @ ''.bam'')),
      run_picard_sort = (\<lambda>_ _ _ out_file. Inr out_file),
      os_path_exists = (\<lambda>p. p \<noteq> ''missing.fq''),
      os_path_join = (\<lambda>ps. concat (map (\<lambda>p. CHR ''/'' # p) ps)),
      os_path_basename = (\<lambda>p. p),
      os_path_splitext = (\<lambda>p. (p, []))\<rparr>"

definition no_trim_config :: config where
  "no_trim_config = scenario_config\<lparr>algorithm := [(''trim_reads'', PBool False)]\<rparr>"

definition trim_config :: config where
  "trim_config = scenario_config\<lparr>algorithm := [(''trim_reads'', PBool True)]\<rparr>"

text \<open>
  The precedence example of the specification: the global configuration sets \<open>x = 1\<close>,
  the bundle of analysis type \<open>Minimal\<close> sets \<open>x = 2\<close>, the sample sets \<open>x = 3\<close>.
\<close>

definition precedence_config :: config where
  "precedence_config =
     \<lparr>algorithm = [(''x'', PInt 1)],
      custom_algorithms = [(Some ''Minimal'', [(''x'', PInt 2)])],
      distributed = None\<rparr>"

definition precedence_sample :: lane_info where
  "precedence_sample = sample_A\<lparr>analysis := Some ''Minimal'', info_algorithm := Some [(''x'', PInt 3)]\<rparr>"

text \<open>
  \<open>distributed.align_split_size\<close> present but null, \<open>algorithm.align_split_size\<close> set.
\<close>

definition null_split_config :: config where
  "null_split_config =
     \<lparr>algorithm = [(''align_split_size'', PInt 1000000)],
      custom_algorithms = [],
      distributed = Some [(''align_split_size'', PNone)]\<rparr>"

text \<open>A second sample on the lane, and a demultiplexer that finds reads for both.\<close>

definition sample_B :: lane_info where
  "sample_B =
     \<lparr>lane = AStr ''1'', barcode_id = AStr ''B'', description = ''sampleB'', name = None,
      analysis = None, info_algorithm = None, genome_build = ''hg19''\<rparr>"

definition sample_A_bwa :: lane_info where
  "sample_A_bwa = sample_A\<lparr>info_algorithm := Some [(''aligner'', PStr ''bwa'')]\<rparr>"

definition sample_A_replicate :: lane_info where
  "sample_A_replicate = sample_A\<lparr>description := ''replicate''\<rparr>"

definition two_barcode_collab :: collaborators where
  "two_barcode_collab =
     scenario_collab\<lparr>split_by_barcode :=
       (\<lambda>_ _ _ _ _ _. Inr [(AStr ''A'', (''A_1.fq'', Some ''A_2.fq'')),
                           (AStr ''B'', (''B_1.fq'', Some ''B_2.fq''))])\<rparr>"

text \<open>A sample whose barcode the demultiplexer of the scenario does not find.\<close>

definition sample_C :: lane_info where
  "sample_C =
     \<lparr>lane = AStr ''1'', barcode_id = AStr ''C'', description = ''sampleC'', name = None,
      analysis = None, info_algorithm = None, genome_build = ''hg19''\<rparr>"

text \<open>
  The precedence example on a store: object 0 is the global \<open>algorithm\<close> mapping,
  object 1 the bundle of \<open>Minimal\<close>, object 2 the sample's \<open>algorithm\<close> mapping.
\<close>

definition precedence_store :: store where
  "precedence_store = [[(''x'', PInt 1)], [(''x'', PInt 2)], [(''x'', PInt 3)]]"

definition precedence_config_refs :: config_refs where
  "precedence_config_refs =
     \<lparr>algorithm_at = 0, custom_algorithms_at = [(Some ''Minimal'', 1)], distributed_at = None\<rparr>"

definition precedence_info_refs :: lane_info_refs where
  "precedence_info_refs = \<lparr>analysis_in = Some ''Minimal'', algorithm_in = Some 2\<rparr>"

text \<open>
  Splitting requested for the whole lane; and a lane where \<open>sample_A_split\<close> asks for
  splitting while the next sample, whose barcode id is \<open>A_s1\<close>, switches it off.
\<close>

definition split_config :: config where
  "split_config = scenario_config\<lparr>algorithm := [(''align_split_size'', PInt 1000000)]\<rparr>"

definition sample_A_split :: lane_info where
  "sample_A_split = sample_A\<lparr>info_algorithm := Some [(''align_split_size'', PInt 1000000)]\<rparr>"

definition sample_A_s1 :: lane_info where
  "sample_A_s1 =
     \<lparr>lane = AStr ''1'', barcode_id = AStr ''A_s1'', description = ''sampleA_s1'', name = None,
      analysis = None, info_algorithm = Some [(''align_split_size'', PInt 0)],
      genome_build = ''hg19''\<rparr>"

definition mixed_collab :: collaborators where
  "mixed_collab =
     scenario_collab\<lparr>split_by_barcode :=
       (\<lambda>_ _ _ _ _ _. Inr [(AStr ''A'', (''A_1.fq'', Some ''A_2.fq'')),
                           (AStr ''A_s1'', (''A_s1_1.fq'', Some ''A_s1_2.fq''))])\<rparr>"

section \<open>Properties\<close>

lemmas scenario_defs =
  scenario_collab_def scenario_dirs_def scenario_config_def sample_A_def sample_B_def
  sample_A_bwa_def sample_A_replicate_def two_barcode_collab_def null_split_config_def
  precedence_config_def precedence_sample_def sample_C_def

lemmas model_defs =
  process_lane_def base_lane_name_def collab_def update_config_w_custom_def deepcopy_def
  overlay_def iteritems_def dict_get_def name_remaps_def apply_custom_def has_key_def
  prep_fastq_files_def split_size_def lane_record_def Let_def

subsection \<open>Errors\<close>

lemma collab_not_IndexError [simp]: "collab r \<noteq> Inl IndexError"
  by (simp add: collab_def split: sum.splits)

lemma collab_not_KeyError [simp]: "collab r \<noteq> Inl KeyError"
  by (simp add: collab_def split: sum.splits)

lemma prep_fastq_files_error:
  "has_key bcf (barcode_id item) \<Longrightarrow> prep_fastq_files C item bcf ds c = Inl e \<Longrightarrow> \<exists>x. e = Raised x"
  by (auto simp: prep_fastq_files_def has_key_def collab_def
           split: option.splits prod.splits if_splits sum.splits)

lemma lane_loop_error:
  "lane_loop C bcf ln ds c out items = Inl e \<Longrightarrow> \<exists>x. e = Raised x"
proof (induction items arbitrary: c out)
  case Nil
  then show ?case by simp
next
  case (Cons item items)
  then show ?case
    by (auto simp: Let_def split: if_splits sum.splits dest: prep_fastq_files_error)
qed

lemma process_lane_error:
  "process_lane C (item0 # items) fc_name fc_date ds c = Inl e \<Longrightarrow> \<exists>x. e = Raised x"
  unfolding process_lane_def
  by (auto simp: Let_def collab_def simp del: lane_loop.simps
           split: sum.splits prod.splits dest: lane_loop_error)

text \<open>
  C10.  \<open>process_lane\<close> needs at least one sample descriptor: on the empty list it
  raises \<open>IndexError\<close> (from \<^verbatim>\<open>lane_items[0]\<close>) instead of returning an empty list,
  and on a non-empty list that \<open>IndexError\<close> cannot occur.
\<close>

theorem process_lane_requires_sample:
  "process_lane C [] fc_name fc_date ds c = Inl IndexError
   \<and> (lane_items \<noteq> [] \<longrightarrow> process_lane C lane_items fc_name fc_date ds c \<noteq> Inl IndexError)"
proof
  show "process_lane C [] fc_name fc_date ds c = Inl IndexError"
    by (simp add: process_lane_def)
next
  show "lane_items \<noteq> [] \<longrightarrow> process_lane C lane_items fc_name fc_date ds c \<noteq> Inl IndexError"
  proof (cases lane_items)
    case Nil
    then show ?thesis by simp
  next
    case (Cons item0 items)
    then show ?thesis
      using process_lane_error [of C item0 items fc_name fc_date ds c IndexError] by auto
  qed
qed

theorem process_lane_requires_sample_witness:
  "[sample_A] \<noteq> []
   \<and> process_lane scenario_collab [] ''FC1'' ''2020-01-01'' scenario_dirs scenario_config
       = Inl IndexError
   \<and> process_lane scenario_collab [sample_A] ''FC1'' ''2020-01-01'' scenario_dirs scenario_config
       \<noteq> Inl IndexError"
  using process_lane_requires_sample
          [of scenario_collab "''FC1''" "''2020-01-01''" scenario_dirs scenario_config "[sample_A]"]
  by simp

subsection \<open>\<open>process_alignment\<close>\<close>

text \<open>
  C4.  \<open>process_alignment\<close> decides in the order of the four rules: a missing
  \<open>fastq1\<close> gives the empty output path; otherwise a configured aligner gives the
  alignment collaborator's return value, also for a \<open>.bam\<close> input; otherwise a \<open>.bam\<close>
  input gives the sort collaborator's result when \<open>bam_sort\<close> is set and \<open>fastq1\<close>
  itself when it is not; otherwise the output path is empty.
\<close>

theorem process_alignment_decision:
  "process_alignment C fastq1 fastq2 info lane_name lane_desc ds c =
     (if \<not> os_path_exists C fastq1 then
        Inr [\<lparr>ar_fastq = (fastq1, fastq2), ar_out_bam = [], ar_info = info, ar_config = c\<rparr>]
      else if truthy (dict_get (algorithm c) ''aligner'' PNone) then
        (case collab (align_to_sort_bam C fastq1 fastq2 (genome_build info)
                 (dict_get (algorithm c) ''aligner'' PNone) lane_name lane_desc ds c) of
           Inl e \<Rightarrow> Inl e
         | Inr b \<Rightarrow>
             Inr [\<lparr>ar_fastq = (fastq1, fastq2), ar_out_bam = b, ar_info = info, ar_config = c\<rparr>])
      else if endswith fastq1 ''.bam'' then
        (if truthy (dict_get (algorithm c) ''bam_sort'' PNone) then
           (case collab (run_picard_sort C c fastq1 (dict_get (algorithm c) ''bam_sort'' PNone)
                    (os_path_join C [dirs_work ds,
                       fst (os_path_splitext C (os_path_basename C fastq1)) @ ''-sort.bam''])) of
              Inl e \<Rightarrow> Inl e
            | Inr b \<Rightarrow>
                Inr [\<lparr>ar_fastq = (fastq1, fastq2), ar_out_bam = b, ar_info = info,
                      ar_config = c\<rparr>])
         else
           Inr [\<lparr>ar_fastq = (fastq1, fastq2), ar_out_bam = fastq1, ar_info = info, ar_config = c\<rparr>])
      else Inr [\<lparr>ar_fastq = (fastq1, fastq2), ar_out_bam = [], ar_info = info, ar_config = c\<rparr>])"
  by (simp add: process_alignment_def Let_def)

subsection \<open>\<open>trim_lane\<close>\<close>

text \<open>
  C7.  When \<open>algorithm.trim_reads\<close> is absent or false, \<open>trim_lane\<close> returns the
  record it was given, with the same files and every other field as passed in, and
  calls no trimming collaborator.
\<close>

theorem trim_lane_pass_through:
  assumes "map_of (algorithm c) ''trim_reads'' = None
           \<or> map_of (algorithm c) ''trim_reads'' = Some (PBool False)"
  shows "trim_lane C fastq1 fastq2 info lane_name lane_desc ds c =
           ([], Inr [\<lparr>dr_fastq1 = fastq1, dr_fastq2 = fastq2, dr_info = info, dr_lane_name = lane_name,
                      dr_lane_desc = lane_desc, dr_dirs = ds, dr_config = c\<rparr>])"
  using assms by (auto simp: trim_lane_def dict_get_def)

theorem trim_lane_pass_through_witness:
  "map_of (algorithm scenario_config) ''trim_reads'' = None
   \<and> trim_lane scenario_collab ''r1.fq'' (Some ''r2.fq'') sample_A ''1_2020-01-01_FC1_A'' ''sampleA''
        scenario_dirs scenario_config =
       ([], Inr [\<lparr>dr_fastq1 = ''r1.fq'', dr_fastq2 = Some ''r2.fq'', dr_info = sample_A,
                  dr_lane_name = ''1_2020-01-01_FC1_A'', dr_lane_desc = ''sampleA'',
                  dr_dirs = scenario_dirs, dr_config = scenario_config\<rparr>])
   \<and> map_of (algorithm no_trim_config) ''trim_reads'' = Some (PBool False)
   \<and> trim_lane scenario_collab ''r1.fq'' None sample_A ''1_2020-01-01_FC1_A'' ''sampleA''
        scenario_dirs no_trim_config =
       ([], Inr [\<lparr>dr_fastq1 = ''r1.fq'', dr_fastq2 = None, dr_info = sample_A,
                  dr_lane_name = ''1_2020-01-01_FC1_A'', dr_lane_desc = ''sampleA'',
                  dr_dirs = scenario_dirs, dr_config = no_trim_config\<rparr>])"
proof -
  have a: "map_of (algorithm scenario_config) ''trim_reads'' = None"
    by (simp add: scenario_config_def)
  have b: "map_of (algorithm no_trim_config) ''trim_reads'' = Some (PBool False)"
    by (simp add: no_trim_config_def)
  show ?thesis
    using a b trim_lane_pass_through [of scenario_config, OF disjI1, OF a]
      trim_lane_pass_through [of no_trim_config, OF disjI2, OF b]
    by simp
qed

lemma trim_result_fastq2:
  "trim_result out_files fastq2 info ln ld ds c = Inr out \<Longrightarrow> r \<in> set out
   \<Longrightarrow> (dr_fastq2 r = None) = (fastq2 = None)"
  by (auto simp: trim_result_def split: list.splits option.splits)

lemma trim_lane_enabled:
  assumes "truthy (dict_get (algorithm c) ''trim_reads'' (PBool False))"
  shows "trim_lane C fastq1 fastq2 info lane_name lane_desc ds c =
     (if dict_get (algorithm c) ''trimmer'' (PStr ''low_quality'') = PStr ''low_quality'' then
        ([BrunTrimFastq (to_trim fastq1 fastq2)],
         (case collab (brun_trim_fastq C (to_trim fastq1 fastq2) ds c) of
            Inl e \<Rightarrow> Inl e
          | Inr out_files \<Rightarrow> trim_result out_files fastq2 info lane_name lane_desc ds c))
      else if dict_get (algorithm c) ''trimmer'' (PStr ''low_quality'') = PStr ''adapter'' then
        ([CutadaptTrim (to_trim fastq1 fastq2)],
         (case collab (cutadapt_trim C (to_trim fastq1 fastq2) ds c) of
            Inl e \<Rightarrow> Inl e
          | Inr out_files \<Rightarrow> trim_result out_files fastq2 info lane_name lane_desc ds c))
      else
        ([], Inr [\<lparr>dr_fastq1 = fastq1, dr_fastq2 = fastq2, dr_info = info,
                   dr_lane_name = lane_name, dr_lane_desc = lane_desc, dr_dirs = ds,
                   dr_config = c\<rparr>]))"
  using assms unfolding trim_lane_def Let_def by (simp only: if_False simp_thms)

text \<open>
  C8.  With trimming enabled, every call to a trimming collaborator passes exactly the
  files among \<open>(fastq1, fastq2)\<close> that are not \<open>None\<close> (one file when \<open>fastq2\<close> is
  \<open>None\<close>), and the returned record's \<open>fastq2\<close> is \<open>None\<close> exactly when the input's is.
\<close>

theorem trim_lane_non_null_files:
  assumes "truthy (dict_get (algorithm c) ''trim_reads'' (PBool False))"
  shows "(\<forall>call \<in> set (fst (trim_lane C fastq1 fastq2 info lane_name lane_desc ds c)).
            trim_call_files call = to_trim fastq1 fastq2)
         \<and> to_trim fastq1 fastq2 = (case fastq2 of None \<Rightarrow> [fastq1] | Some f \<Rightarrow> [fastq1, f])
         \<and> (\<forall>out. snd (trim_lane C fastq1 fastq2 info lane_name lane_desc ds c) = Inr out
              \<longrightarrow> (\<forall>r \<in> set out. (dr_fastq2 r = None) = (fastq2 = None)))"
proof (intro conjI)
  note eq = trim_lane_enabled [OF assms, of C fastq1 fastq2 info lane_name lane_desc ds]
  show "\<forall>call \<in> set (fst (trim_lane C fastq1 fastq2 info lane_name lane_desc ds c)).
            trim_call_files call = to_trim fastq1 fastq2"
    unfolding eq by simp
  show "to_trim fastq1 fastq2 = (case fastq2 of None \<Rightarrow> [fastq1] | Some f \<Rightarrow> [fastq1, f])"
    by (simp add: to_trim_def split: option.splits)
  show "\<forall>out. snd (trim_lane C fastq1 fastq2 info lane_name lane_desc ds c) = Inr out
              \<longrightarrow> (\<forall>r \<in> set out. (dr_fastq2 r = None) = (fastq2 = None))"
  proof (intro allI impI ballI)
    fix out r
    assume out: "snd (trim_lane C fastq1 fastq2 info lane_name lane_desc ds c) = Inr out"
      and r: "r \<in> set out"
    consider (brun) "dict_get (algorithm c) ''trimmer'' (PStr ''low_quality'') = PStr ''low_quality''"
      | (cutadapt) "dict_get (algorithm c) ''trimmer'' (PStr ''low_quality'') \<noteq> PStr ''low_quality''"
          "dict_get (algorithm c) ''trimmer'' (PStr ''low_quality'') = PStr ''adapter''"
      | (skip) "dict_get (algorithm c) ''trimmer'' (PStr ''low_quality'') \<noteq> PStr ''low_quality''"
          "dict_get (algorithm c) ''trimmer'' (PStr ''low_quality'') \<noteq> PStr ''adapter''"
      by blast
    then show "(dr_fastq2 r = None) = (fastq2 = None)"
    proof cases
      case brun
      with out eq obtain out_files where
        "trim_result out_files fastq2 info lane_name lane_desc ds c = Inr out"
        by (auto split: sum.splits)
      then show ?thesis using r by (rule trim_result_fastq2)
    next
      case cutadapt
      with out eq obtain out_files where
        "trim_result out_files fastq2 info lane_name lane_desc ds c = Inr out"
        by (auto split: sum.splits)
      then show ?thesis using r by (rule trim_result_fastq2)
    next
      case skip
      with out eq r show ?thesis by auto
    qed
  qed
qed

theorem trim_lane_non_null_files_witness:
  "truthy (dict_get (algorithm trim_config) ''trim_reads'' (PBool False))
   \<and> trim_lane scenario_collab ''r1.fq'' None sample_A ''1_2020-01-01_FC1_A'' ''sampleA''
        scenario_dirs trim_config =
       ([BrunTrimFastq [''r1.fq'']],
        Inr [\<lparr>dr_fastq1 = ''q_r1.fq'', dr_fastq2 = None, dr_info = sample_A,
              dr_lane_name = ''1_2020-01-01_FC1_A'', dr_lane_desc = ''sampleA'',
              dr_dirs = scenario_dirs, dr_config = trim_config\<rparr>])
   \<and> to_trim ''r1.fq'' None = [''r1.fq'']"
proof -
  have a: "truthy (dict_get (algorithm trim_config) ''trim_reads'' (PBool False))"
    by (simp add: trim_config_def dict_get_def)
  have b: "trim_lane scenario_collab ''r1.fq'' None sample_A ''1_2020-01-01_FC1_A'' ''sampleA''
        scenario_dirs trim_config =
       ([BrunTrimFastq [''r1.fq'']],
        Inr [\<lparr>dr_fastq1 = ''q_r1.fq'', dr_fastq2 = None, dr_info = sample_A,
              dr_lane_name = ''1_2020-01-01_FC1_A'', dr_lane_desc = ''sampleA'',
              dr_dirs = scenario_dirs, dr_config = trim_config\<rparr>])"
    by (simp add: trim_lane_def trim_config_def dict_get_def to_trim_def scenario_collab_def
          collab_def trim_result_def scenario_config_def)
  have c: "to_trim ''r1.fq'' None = [''r1.fq'']"
    using trim_lane_non_null_files [OF a, of scenario_collab "''r1.fq''" None sample_A
        "''1_2020-01-01_FC1_A''" "''sampleA''" scenario_dirs]
    by simp
  show ?thesis using a b c by simp
qed

subsection \<open>\<open>_update_config_w_custom\<close>\<close>

lemma fold_update_distinct:
  "distinct (map fst l) \<Longrightarrow>
   map_of (algorithm (fold (\<lambda>(key, val) c. c\<lparr>algorithm := AList.update key val (algorithm c)\<rparr>) l c))
     = map_of (algorithm c) ++ map_of l"
proof (induction l arbitrary: c)
  case Nil
  then show ?case by simp
next
  case (Cons kv l)
  obtain k v where kv: "kv = (k, v)" by (cases kv)
  from Cons.prems kv have nk: "map_of l k = None" and dl: "distinct (map fst l)"
    by (auto simp: map_of_eq_None_iff)
  show ?case
    using Cons.IH [OF dl] nk
    by (auto simp: kv update_conv' fun_eq_iff map_add_def split: option.splits)
qed

lemma algorithm_overlay: "map_of (algorithm (overlay d c)) = map_of (algorithm c) ++ map_of d"
  unfolding overlay_def iteritems_def
  by (simp add: fold_update_distinct map_of_clearjunk)

lemma fold_update_others:
  "custom_algorithms (fold (\<lambda>(key, val) c. c\<lparr>algorithm := AList.update key val (algorithm c)\<rparr>) l c)
     = custom_algorithms c
   \<and> distributed (fold (\<lambda>(key, val) c. c\<lparr>algorithm := AList.update key val (algorithm c)\<rparr>) l c)
     = distributed c"
  by (induction l arbitrary: c) auto

lemma custom_algorithms_overlay [simp]: "custom_algorithms (overlay d c) = custom_algorithms c"
  by (simp add: overlay_def fold_update_others)

lemma distributed_overlay [simp]: "distributed (overlay d c) = distributed c"
  by (simp add: overlay_def fold_update_others)

text \<open>What the loop over the resolved analysis types does to one key.\<close>

lemma custom_algorithms_apply_custom [simp]:
  "custom_algorithms (apply_custom t c) = custom_algorithms c"
  by (simp add: apply_custom_def split: option.splits)

lemma custom_algorithms_fold_apply_custom [simp]:
  "custom_algorithms (fold apply_custom ts c) = custom_algorithms c"
  by (induction ts arbitrary: c) simp_all

lemma algorithm_apply_custom:
  "map_of (algorithm (apply_custom t c)) =
     map_of (algorithm c)
     ++ (case map_of (custom_algorithms c) t of None \<Rightarrow> Map.empty | Some b \<Rightarrow> map_of b)"
  by (simp add: apply_custom_def algorithm_overlay split: option.splits)

lemma fold_apply_custom_untouched:
  "\<forall>t \<in> set ts. \<forall>b. map_of (custom_algorithms c) t = Some b \<longrightarrow> map_of b x = None \<Longrightarrow>
   map_of (algorithm (fold apply_custom ts c)) x = map_of (algorithm c) x"
proof (induction ts arbitrary: c)
  case Nil
  show ?case by simp
next
  case (Cons t ts)
  have step: "map_of (algorithm (apply_custom t c)) x = map_of (algorithm c) x"
    using Cons.prems by (auto simp: algorithm_apply_custom map_add_def split: option.splits)
  have "\<forall>t' \<in> set ts. \<forall>b. map_of (custom_algorithms (apply_custom t c)) t' = Some b
          \<longrightarrow> map_of b x = None"
    using Cons.prems by simp
  from Cons.IH [OF this] step show ?case by simp
qed

lemma fold_apply_custom_last:
  assumes "map_of (custom_algorithms c) t = Some custom" and "map_of custom x = Some v"
    and "\<forall>t \<in> set later. \<forall>b. map_of (custom_algorithms c) t = Some b \<longrightarrow> map_of b x = None"
  shows "map_of (algorithm (fold apply_custom (earlier @ t # later) c)) x = Some v"
proof -
  define c1 where "c1 = fold apply_custom earlier c"
  have ca: "custom_algorithms c1 = custom_algorithms c" by (simp add: c1_def)
  have t: "map_of (algorithm (apply_custom t c1)) x = Some v"
    using assms(1,2) by (simp add: algorithm_apply_custom ca map_add_def)
  have "\<forall>t' \<in> set later. \<forall>b. map_of (custom_algorithms (apply_custom t c1)) t' = Some b
          \<longrightarrow> map_of b x = None"
    using assms(3) by (simp add: ca)
  from fold_apply_custom_untouched [OF this] t show ?thesis by (simp add: c1_def)
qed

lemma overlay_Nil [simp]: "overlay [] c = c"
  by (simp add: overlay_def iteritems_def)

lemma fold_apply_custom_some:
  assumes "t \<in> set ts" and "map_of (custom_algorithms c) t = Some b" and "map_of b x = Some v"
  shows "\<exists>t' \<in> set ts. \<exists>b'. map_of (custom_algorithms c) t' = Some b' \<and> map_of b' x \<noteq> None
           \<and> map_of (algorithm (fold apply_custom ts c)) x = map_of b' x"
proof -
  let ?P = "\<lambda>t. \<exists>b. map_of (custom_algorithms c) t = Some b \<and> map_of b x \<noteq> None"
  from assms have "\<exists>t \<in> set ts. ?P t" by auto
  from split_list_last_prop [OF this] obtain earlier t' later where
    ts: "ts = earlier @ t' # later" and t': "?P t'" and rest: "\<forall>z \<in> set later. \<not> ?P z"
    by blast
  from t' obtain b' v' where b': "map_of (custom_algorithms c) t' = Some b'"
    and v': "map_of b' x = Some v'" by auto
  from rest have "\<forall>t \<in> set later. \<forall>b. map_of (custom_algorithms c) t = Some b \<longrightarrow> map_of b x = None"
    by auto
  from fold_apply_custom_last [OF b' v' this, of earlier]
  have "map_of (algorithm (fold apply_custom ts c)) x = map_of b' x" by (simp add: ts v')
  with b' v' ts show ?thesis by auto
qed

text \<open>
  C6.  Let the global configuration set \<open>algorithm.x\<close> to \<open>v1\<close>, let the bundle of
  \<open>custom_algorithms\<close> for one of the sample's resolved analysis types set \<open>x\<close> to \<open>v2\<close>,
  and let the sample's own \<open>algorithm\<close> mapping set \<open>x\<close> to \<open>v3\<close>.  Then the merge gives
  \<open>x = v3\<close>: the sample wins.  The same sample without its own overrides gets a value
  that the bundle of a resolved analysis type sets for \<open>x\<close>, namely \<open>v2\<close> when no bundle
  applied after that of \<open>analysis_type\<close> sets \<open>x\<close> (bundles are applied in list order):
  bundles win over the global value.  And with no bundles either, \<open>x = v1\<close>.
\<close>

theorem sample_override_wins:
  assumes baseline: "map_of (algorithm c) x = Some v1"
    and resolved: "analysis_type \<in> set (dict_get name_remaps (analysis lane_info) [analysis lane_info])"
    and matching: "map_of (custom_algorithms c) analysis_type = Some custom"
    and sets_x: "map_of custom x = Some v2"
    and sample: "info_algorithm lane_info = Some overrides"
    and override: "map_of overrides x = Some v3"
  shows "map_of (algorithm (update_config_w_custom c lane_info)) x = Some v3
         \<and> (\<exists>t \<in> set (dict_get name_remaps (analysis lane_info) [analysis lane_info]).
              \<exists>b. map_of (custom_algorithms c) t = Some b \<and> map_of b x \<noteq> None
                \<and> map_of (algorithm (update_config_w_custom c (lane_info\<lparr>info_algorithm := None\<rparr>))) x
                    = map_of b x)
         \<and> (\<forall>earlier later.
               dict_get name_remaps (analysis lane_info) [analysis lane_info]
                 = earlier @ analysis_type # later
               \<longrightarrow> (\<forall>t \<in> set later. \<forall>b. map_of (custom_algorithms c) t = Some b
                      \<longrightarrow> map_of b x = None)
               \<longrightarrow> map_of (algorithm (update_config_w_custom c
                                        (lane_info\<lparr>info_algorithm := None\<rparr>))) x = Some v2)
         \<and> map_of (algorithm (update_config_w_custom (c\<lparr>custom_algorithms := []\<rparr>)
                                 (lane_info\<lparr>info_algorithm := None\<rparr>))) x
             = Some v1"
proof (intro conjI allI impI)
  show "map_of (algorithm (update_config_w_custom c lane_info)) x = Some v3"
    using sample override by (simp add: update_config_w_custom_def Let_def algorithm_overlay)
  show "\<exists>t \<in> set (dict_get name_remaps (analysis lane_info) [analysis lane_info]).
              \<exists>b. map_of (custom_algorithms c) t = Some b \<and> map_of b x \<noteq> None
                \<and> map_of (algorithm (update_config_w_custom c (lane_info\<lparr>info_algorithm := None\<rparr>))) x
                    = map_of b x"
    using fold_apply_custom_some [OF resolved matching sets_x]
    by (simp add: update_config_w_custom_def deepcopy_def Let_def)
  show "map_of (algorithm (update_config_w_custom c (lane_info\<lparr>info_algorithm := None\<rparr>))) x
          = Some v2"
    if "dict_get name_remaps (analysis lane_info) [analysis lane_info]
          = earlier @ analysis_type # later"
      and "\<forall>t \<in> set later. \<forall>b. map_of (custom_algorithms c) t = Some b \<longrightarrow> map_of b x = None"
    for earlier later
    using fold_apply_custom_last [OF matching sets_x that(2), of earlier]
    by (simp add: update_config_w_custom_def deepcopy_def Let_def that(1))
  have "\<forall>t \<in> set (dict_get name_remaps (analysis lane_info) [analysis lane_info]).
          \<forall>b. map_of (custom_algorithms (c\<lparr>custom_algorithms := []\<rparr>)) t = Some b
            \<longrightarrow> map_of b x = None"
    by simp
  from fold_apply_custom_untouched [OF this] baseline
  show "map_of (algorithm (update_config_w_custom (c\<lparr>custom_algorithms := []\<rparr>)
                                 (lane_info\<lparr>info_algorithm := None\<rparr>))) x = Some v1"
    by (simp add: update_config_w_custom_def deepcopy_def Let_def)
qed

theorem sample_override_wins_witness:
  "map_of (algorithm precedence_config) ''x'' = Some (PInt 1)
   \<and> Some ''Minimal'' \<in> set (dict_get name_remaps (analysis precedence_sample)
                                [analysis precedence_sample])
   \<and> map_of (custom_algorithms precedence_config) (Some ''Minimal'') = Some [(''x'', PInt 2)]
   \<and> map_of [(''x'', PInt 2)] ''x'' = Some (PInt 2)
   \<and> info_algorithm precedence_sample = Some [(''x'', PInt 3)]
   \<and> map_of [(''x'', PInt 3)] ''x'' = Some (PInt 3)
   \<and> map_of (algorithm (update_config_w_custom precedence_config precedence_sample)) ''x''
       = Some (PInt 3)
   \<and> map_of (algorithm (update_config_w_custom precedence_config
                           (precedence_sample\<lparr>info_algorithm := None\<rparr>))) ''x''
       = Some (PInt 2)
   \<and> map_of (algorithm (update_config_w_custom (precedence_config\<lparr>custom_algorithms := []\<rparr>)
                           (precedence_sample\<lparr>info_algorithm := None\<rparr>))) ''x''
       = Some (PInt 1)"
proof -
  have a: "map_of (algorithm precedence_config) ''x'' = Some (PInt 1)"
    by (simp add: precedence_config_def)
  have r: "dict_get name_remaps (analysis precedence_sample) [analysis precedence_sample]
             = [] @ Some ''Minimal'' # []"
    by (simp add: precedence_sample_def dict_get_def name_remaps_def)
  have b: "Some ''Minimal'' \<in> set (dict_get name_remaps (analysis precedence_sample)
                                [analysis precedence_sample])"
    unfolding r by simp
  have c: "map_of (custom_algorithms precedence_config) (Some ''Minimal'') = Some [(''x'', PInt 2)]"
    by (simp add: precedence_config_def)
  have d: "map_of [(''x'', PInt 2)] ''x'' = Some (PInt 2)" by simp
  have l: "\<forall>t \<in> set []. \<forall>b. map_of (custom_algorithms precedence_config) t = Some b
             \<longrightarrow> map_of b ''x'' = None" by simp
  have e: "info_algorithm precedence_sample = Some [(''x'', PInt 3)]"
    by (simp add: precedence_sample_def)
  have f: "map_of [(''x'', PInt 3)] ''x'' = Some (PInt 3)" by simp
  note th = sample_override_wins [OF a b c d e f]
  have t1: "map_of (algorithm (update_config_w_custom precedence_config precedence_sample)) ''x''
       = Some (PInt 3)"
    using th by (rule conjunct1)
  have t2: "map_of (algorithm (update_config_w_custom precedence_config
                           (precedence_sample\<lparr>info_algorithm := None\<rparr>))) ''x''
       = Some (PInt 2)"
    using th [THEN conjunct2, THEN conjunct2, THEN conjunct1, THEN spec, THEN spec, THEN mp,
        THEN mp, OF r l] .
  have t3: "map_of (algorithm (update_config_w_custom (precedence_config\<lparr>custom_algorithms := []\<rparr>)
                           (precedence_sample\<lparr>info_algorithm := None\<rparr>))) ''x''
       = Some (PInt 1)"
    using th [THEN conjunct2, THEN conjunct2, THEN conjunct2] .
  show ?thesis
    by (intro conjI) (rule a b c d e f t1 t2 t3)+
qed

subsection \<open>\<open>_prep_fastq_files\<close>\<close>

text \<open>
  C3, as the code has it.  The split size is the value of \<open>distributed.align_split_size\<close>
  whenever that key is present, also when the value is null; only when the key (or
  \<open>distributed\<close>) is absent it is \<open>algorithm.align_split_size\<close>, and null when that is
  absent too.  The splitter is called with that size when it is truthy; otherwise the
  plan is the one unit \<open>(fastq1, fastq2, None)\<close>.
\<close>

theorem split_size_first_present:
  "split_size c =
     (case distributed c of
        None \<Rightarrow> dict_get (algorithm c) ''align_split_size'' PNone
      | Some d \<Rightarrow>
          (case map_of d ''align_split_size'' of
             Some v \<Rightarrow> v
           | None \<Rightarrow> dict_get (algorithm c) ''align_split_size'' PNone))
   \<and> (map_of bcf (barcode_id item) = Some (fastq1, fastq2) \<longrightarrow>
        prep_fastq_files C item bcf ds c =
          (if truthy (split_size c) then
             (case collab (safe_makedir C
                     (os_path_join C [dirs_work ds, ''align_splitprep'', description item])) of
                Inl e \<Rightarrow> Inl e
              | Inr split_dir \<Rightarrow>
                  collab (split_read_files C fastq1 fastq2 item (split_size c) split_dir ds c))
           else Inr [(fastq1, fastq2, ANone)]))"
  by (simp add: split_size_def dict_get_def prep_fastq_files_def split: option.splits)

theorem split_size_first_present_witness:
  "map_of [(AStr ''A'', (''r1.fq'', Some ''r2.fq''))] (barcode_id sample_A) = Some (''r1.fq'', Some ''r2.fq'')
   \<and> split_size null_split_config = PNone
   \<and> prep_fastq_files scenario_collab sample_A [(AStr ''A'', (''r1.fq'', Some ''r2.fq''))]
        scenario_dirs null_split_config = Inr [(''r1.fq'', Some ''r2.fq'', ANone)]"
proof -
  have a: "map_of [(AStr ''A'', (''r1.fq'', Some ''r2.fq''))] (barcode_id sample_A) = Some (''r1.fq'', Some ''r2.fq'')"
    by (simp add: sample_A_def)
  have b: "distributed null_split_config = Some [(''align_split_size'', PNone)]"
    by (simp add: null_split_config_def)
  show ?thesis
    using a split_size_first_present [of null_split_config "[(AStr ''A'', (''r1.fq'', Some ''r2.fq''))]"
        sample_A "''r1.fq''" "Some ''r2.fq''" scenario_collab scenario_dirs]
    by (simp add: b)
qed

text \<open>
  The claim as stated fails: with \<open>distributed.align_split_size\<close> present but null and
  \<open>algorithm.align_split_size = 1000000\<close>, no splitting takes place, although the
  splitter called with \<open>1000000\<close> would have produced two chunks.
\<close>

theorem null_distributed_split_size_disables_splitting:
  "distributed null_split_config = Some [(''align_split_size'', PNone)]
   \<and> map_of (algorithm null_split_config) ''align_split_size'' = Some (PInt 1000000)
   \<and> prep_fastq_files scenario_collab sample_A [(AStr ''A'', (''r1.fq'', Some ''r2.fq''))]
        scenario_dirs null_split_config = Inr [(''r1.fq'', Some ''r2.fq'', ANone)]
   \<and> collab (split_read_files scenario_collab ''r1.fq'' (Some ''r2.fq'') sample_A (PInt 1000000)
        ''/work/align_splitprep/sampleA'' scenario_dirs null_split_config)
       = Inr [(''r1.fq'', Some ''r2.fq'', AInt 0), (''r1.fq'', Some ''r2.fq'', AInt 1)]"
  by (simp add: scenario_defs model_defs)

subsection \<open>\<open>process_lane\<close>\<close>

text \<open>
  C1.  The loop rebinds \<open>config\<close> to the merged configuration, so a sample's overrides
  stay in force for every later sample.  Here \<open>sample_A_bwa\<close> sets \<open>aligner = bwa\<close> and
  \<open>sample_B\<close> sets nothing: the record emitted for \<open>sample_B\<close> carries \<open>aligner = bwa\<close>,
  which the merge of the global configuration with \<open>sample_B\<close> alone does not have.
\<close>

theorem config_leaks_to_later_sample:
  "(case process_lane two_barcode_collab [sample_A_bwa, sample_B] ''FC1'' ''2020-01-01''
           scenario_dirs scenario_config of
      Inr [rA, rB] \<Rightarrow>
        dr_info rB = sample_B
        \<and> map_of (algorithm (dr_config rB)) ''aligner'' = Some (PStr ''bwa'')
        \<and> dr_config rB \<noteq> update_config_w_custom scenario_config sample_B
    | _ \<Rightarrow> False)
   \<and> info_algorithm sample_B = None
   \<and> map_of (algorithm (update_config_w_custom scenario_config sample_B)) ''aligner'' = None"
  by (simp add: scenario_defs model_defs)

text \<open>The loop of \<open>process_lane\<close>: accumulator, concatenation, provenance of records.\<close>

lemma lane_loop_acc:
  "lane_loop C bcf ln ds c out items =
     (case lane_loop C bcf ln ds c [] items of Inl e \<Rightarrow> Inl e | Inr new \<Rightarrow> Inr (out @ new))"
proof (induction items arbitrary: c out)
  case Nil
  show ?case by simp
next
  case (Cons item items)
  define c' where "c' = update_config_w_custom c item"
  show ?case
  proof (cases "has_key bcf (barcode_id item)")
    case False
    then show ?thesis using Cons.IH [of c' out] by (simp add: c'_def Let_def)
  next
    case True
    show ?thesis
    proof (cases "prep_fastq_files C item bcf ds c'")
      case (Inl e)
      with True show ?thesis by (simp add: c'_def Let_def)
    next
      case (Inr units)
      define new where "new = map (lane_record ln ds c' item) units"
      have l: "lane_loop C bcf ln ds c out (item # items) = lane_loop C bcf ln ds c' (out @ new) items"
        using True Inr by (simp add: c'_def new_def Let_def)
      have r: "lane_loop C bcf ln ds c [] (item # items) = lane_loop C bcf ln ds c' new items"
        using True Inr by (simp add: c'_def new_def Let_def)
      show ?thesis
        unfolding l r
        by (subst Cons.IH [of c' "out @ new"], subst Cons.IH [of c' new])
           (simp split: sum.splits)
    qed
  qed
qed

lemma lane_loop_append:
  "lane_loop C bcf ln ds c out (xs @ ys) =
     (case lane_loop C bcf ln ds c out xs of
        Inl e \<Rightarrow> Inl e
      | Inr out' \<Rightarrow> lane_loop C bcf ln ds (foldl update_config_w_custom c xs) out' ys)"
proof (induction xs arbitrary: c out)
  case Nil
  show ?case by simp
next
  case (Cons x xs)
  show ?case
    by (simp add: Let_def Cons.IH split: sum.splits)
qed

lemma dr_info_lane_record [simp]: "dr_info (lane_record ln ds c item u) = item"
  by (simp add: lane_record_def Let_def split: prod.splits)

lemma lane_loop_present:
  "lane_loop C bcf ln ds c out items = Inr res \<Longrightarrow> r \<in> set res
   \<Longrightarrow> r \<in> set out \<or> has_key bcf (barcode_id (dr_info r))"
proof (induction items arbitrary: c out)
  case Nil
  then show ?case by simp
next
  case (Cons item items)
  define c' where "c' = update_config_w_custom c item"
  show ?case
  proof (cases "has_key bcf (barcode_id item)")
    case False
    with Cons.prems have "lane_loop C bcf ln ds c' out items = Inr res"
      by (simp add: c'_def Let_def)
    from Cons.IH [OF this Cons.prems(2)] show ?thesis .
  next
    case True
    with Cons.prems obtain units where
      "lane_loop C bcf ln ds c' (out @ map (lane_record ln ds c' item) units) items = Inr res"
      by (auto simp: c'_def Let_def split: sum.splits)
    from Cons.IH [OF this Cons.prems(2)] True show ?thesis by auto
  qed
qed

text \<open>
  C5.  A sample whose \<open>barcode_id\<close> is not a key of the map that the demultiplexer
  returned contributes no record and no error: the result of \<open>process_lane\<close> is what the
  loop yields for the samples before it, followed by what it yields for the samples
  after it (the loop variable \<open>config\<close> having gone through the merge with the skipped
  sample), and every record returned belongs to a sample whose barcode is in the map.
\<close>

theorem process_lane_skips_absent_barcode:
  assumes items: "lane_items = xs @ s # ys"
    and discover: "get_fastq_files C (dirs_fastq ds) (dirs_work ds) (hd lane_items) fc_name ds
                     (update_config_w_custom c (hd lane_items)) = Inr (f1, f2)"
    and demux: "split_by_barcode C f1 f2 lane_items (base_lane_name (hd lane_items) fc_date fc_name)
                  ds c = Inr bcf"
    and absent: "\<not> has_key bcf (barcode_id s)"
  shows "process_lane C lane_items fc_name fc_date ds c =
           (case lane_loop C bcf (base_lane_name (hd lane_items) fc_date fc_name) ds c [] xs of
              Inl e \<Rightarrow> Inl e
            | Inr out1 \<Rightarrow>
                (case lane_loop C bcf (base_lane_name (hd lane_items) fc_date fc_name) ds
                        (update_config_w_custom (foldl update_config_w_custom c xs) s) [] ys of
                   Inl e \<Rightarrow> Inl e
                 | Inr out2 \<Rightarrow> Inr (out1 @ out2)))
         \<and> (\<forall>out. process_lane C lane_items fc_name fc_date ds c = Inr out
               \<longrightarrow> (\<forall>r \<in> set out. has_key bcf (barcode_id (dr_info r))))"
proof -
  define ln where "ln = base_lane_name (hd lane_items) fc_date fc_name"
  have "lane_items \<noteq> []" using items by simp
  then obtain item0 rest where cons: "lane_items = item0 # rest"
    by (cases lane_items) simp_all
  have pl: "process_lane C lane_items fc_name fc_date ds c = lane_loop C bcf ln ds c [] lane_items"
    using discover demux unfolding process_lane_def cons ln_def
    by (simp add: collab_def Let_def del: lane_loop.simps)
  have skip: "lane_loop C bcf ln ds c' out (s # ys)
                = lane_loop C bcf ln ds (update_config_w_custom c' s) out ys" for c' out
    using absent by (simp add: Let_def)
  have "lane_loop C bcf ln ds c [] lane_items =
          (case lane_loop C bcf ln ds c [] xs of
             Inl e \<Rightarrow> Inl e
           | Inr out1 \<Rightarrow>
               lane_loop C bcf ln ds (update_config_w_custom (foldl update_config_w_custom c xs) s)
                 out1 ys)"
    unfolding items lane_loop_append skip ..
  also have "\<dots> =
          (case lane_loop C bcf ln ds c [] xs of
             Inl e \<Rightarrow> Inl e
           | Inr out1 \<Rightarrow>
               (case lane_loop C bcf ln ds
                       (update_config_w_custom (foldl update_config_w_custom c xs) s) [] ys of
                  Inl e \<Rightarrow> Inl e
                | Inr out2 \<Rightarrow> Inr (out1 @ out2)))"
    by (cases "lane_loop C bcf ln ds c [] xs")
       (simp_all add: lane_loop_acc [where out = "x" for x :: "dispatch_record list", symmetric] del: lane_loop.simps)
  finally have first: "process_lane C lane_items fc_name fc_date ds c =
          (case lane_loop C bcf ln ds c [] xs of
             Inl e \<Rightarrow> Inl e
           | Inr out1 \<Rightarrow>
               (case lane_loop C bcf ln ds
                       (update_config_w_custom (foldl update_config_w_custom c xs) s) [] ys of
                  Inl e \<Rightarrow> Inl e
                | Inr out2 \<Rightarrow> Inr (out1 @ out2)))"
    using pl by simp
  have second: "\<forall>out. process_lane C lane_items fc_name fc_date ds c = Inr out
               \<longrightarrow> (\<forall>r \<in> set out. has_key bcf (barcode_id (dr_info r)))"
    using lane_loop_present [of C bcf ln ds c "[]" lane_items] unfolding pl by auto
  show ?thesis using first second unfolding ln_def by blast
qed

theorem process_lane_skips_absent_barcode_witness:
  "[sample_A, sample_C, sample_B] = [sample_A] @ sample_C # [sample_B]
   \<and> \<not> has_key [(AStr ''A'', (''A_1.fq'', Some ''A_2.fq'')),
                  (AStr ''B'', (''B_1.fq'', Some ''B_2.fq''))] (barcode_id sample_C)
   \<and> (case process_lane two_barcode_collab [sample_A, sample_C, sample_B] ''FC1'' ''2020-01-01''
              scenario_dirs scenario_config of
         Inr [rA, rB] \<Rightarrow> dr_info rA = sample_A \<and> dr_info rB = sample_B
       | _ \<Rightarrow> False)"
proof -
  have a: "[sample_A, sample_C, sample_B] = [sample_A] @ sample_C # [sample_B]" by simp
  have b: "get_fastq_files two_barcode_collab (dirs_fastq scenario_dirs) (dirs_work scenario_dirs)
             (hd [sample_A, sample_C, sample_B]) ''FC1'' scenario_dirs
             (update_config_w_custom scenario_config (hd [sample_A, sample_C, sample_B]))
           = Inr (''lane_1.fq'', Some ''lane_2.fq'')"
    by (simp add: two_barcode_collab_def scenario_collab_def)
  have c: "split_by_barcode two_barcode_collab ''lane_1.fq'' (Some ''lane_2.fq'')
             [sample_A, sample_C, sample_B]
             (base_lane_name (hd [sample_A, sample_C, sample_B]) ''2020-01-01'' ''FC1'')
             scenario_dirs scenario_config
           = Inr [(AStr ''A'', (''A_1.fq'', Some ''A_2.fq'')),
                  (AStr ''B'', (''B_1.fq'', Some ''B_2.fq''))]"
    by (simp add: two_barcode_collab_def scenario_collab_def)
  have d: "\<not> has_key [(AStr ''A'', (''A_1.fq'', Some ''A_2.fq'')),
                  (AStr ''B'', (''B_1.fq'', Some ''B_2.fq''))] (barcode_id sample_C)"
    by (simp add: has_key_def sample_C_def)
  note th = process_lane_skips_absent_barcode [OF a b c d, THEN conjunct1]
  have x: "process_lane two_barcode_collab [sample_A, sample_C, sample_B] ''FC1'' ''2020-01-01''
          scenario_dirs scenario_config
        = Inr [lane_record ''1_2020-01-01_FC1'' scenario_dirs scenario_config sample_A
                 (''A_1.fq'', Some ''A_2.fq'', ANone),
               lane_record ''1_2020-01-01_FC1'' scenario_dirs scenario_config sample_B
                 (''B_1.fq'', Some ''B_2.fq'', ANone)]"
    unfolding th
    by (simp add: scenario_defs base_lane_name_def collab_def update_config_w_custom_def
          deepcopy_def overlay_def iteritems_def dict_get_def name_remaps_def apply_custom_def
          has_key_def prep_fastq_files_def split_size_def Let_def)
  have e: "(case process_lane two_barcode_collab [sample_A, sample_C, sample_B] ''FC1'' ''2020-01-01''
              scenario_dirs scenario_config of
         Inr [rA, rB] \<Rightarrow> dr_info rA = sample_A \<and> dr_info rB = sample_B
       | _ \<Rightarrow> False)"
    unfolding x by simp
  show ?thesis using a d e by (intro conjI)
qed

lemma lane_name_lane_record:
  "dr_lane_name (lane_record ln ds c item (f1, f2, ANone)) = ln @ barcode_suffix (barcode_id item)"
  by (simp add: lane_record_def barcode_suffix_def Let_def)

lemma prep_fastq_files_no_split:
  "\<not> truthy (split_size c) \<Longrightarrow> has_key bcf (barcode_id item) \<Longrightarrow>
   \<exists>f1 f2. prep_fastq_files C item bcf ds c = Inr [(f1, f2, ANone)]"
  by (auto simp: prep_fastq_files_def has_key_def split: option.splits)

lemma lane_loop_no_split:
  "splitting_off c items \<Longrightarrow>
   \<exists>res. lane_loop C bcf ln ds c out items = Inr res
     \<and> map dr_lane_name res =
         map dr_lane_name out
         @ map (\<lambda>i. ln @ barcode_suffix (barcode_id i)) (filter (\<lambda>i. has_key bcf (barcode_id i)) items)"
proof (induction items arbitrary: c out)
  case Nil
  show ?case by simp
next
  case (Cons item items)
  define c' where "c' = update_config_w_custom c item"
  from Cons.prems have off: "\<not> truthy (split_size c')" and rest: "splitting_off c' items"
    by (simp_all add: c'_def Let_def)
  show ?case
  proof (cases "has_key bcf (barcode_id item)")
    case False
    then show ?thesis using Cons.IH [OF rest, of out] by (simp add: c'_def Let_def)
  next
    case True
    from prep_fastq_files_no_split [OF off True] obtain f1 f2 where
      prep: "prep_fastq_files C item bcf ds c' = Inr [(f1, f2, ANone)]" by blast
    have step: "lane_loop C bcf ln ds c out (item # items)
        = lane_loop C bcf ln ds c' (out @ [lane_record ln ds c' item (f1, f2, ANone)]) items"
      using True prep by (simp add: c'_def Let_def)
    show ?thesis
      unfolding step
      using Cons.IH [OF rest, of "out @ [lane_record ln ds c' item (f1, f2, ANone)]"] True
      by (simp add: lane_name_lane_record)
  qed
qed

text \<open>
  Without splitting, pairwise different barcode suffixes of the samples found in the
  demultiplexer's map are enough for pairwise different lane names.
\<close>

theorem lane_names_distinct_without_split:
  assumes nonempty: "lane_items \<noteq> []"
    and discover: "get_fastq_files C (dirs_fastq ds) (dirs_work ds) (hd lane_items) fc_name ds
                     (update_config_w_custom c (hd lane_items)) = Inr (f1, f2)"
    and demux: "split_by_barcode C f1 f2 lane_items (base_lane_name (hd lane_items) fc_date fc_name)
                  ds c = Inr bcf"
    and no_split: "splitting_off c lane_items"
    and suffixes: "distinct (map (\<lambda>i. barcode_suffix (barcode_id i))
                               (filter (\<lambda>i. has_key bcf (barcode_id i)) lane_items))"
  shows "\<exists>out. process_lane C lane_items fc_name fc_date ds c = Inr out
               \<and> distinct (map dr_lane_name out)"
proof -
  define ln where "ln = base_lane_name (hd lane_items) fc_date fc_name"
  obtain item0 rest where cons: "lane_items = item0 # rest"
    using nonempty by (cases lane_items) simp_all
  have pl: "process_lane C lane_items fc_name fc_date ds c = lane_loop C bcf ln ds c [] lane_items"
    using discover demux unfolding process_lane_def cons ln_def
    by (simp add: collab_def Let_def del: lane_loop.simps)
  from lane_loop_no_split [OF no_split, of C bcf ln ds "[]"] obtain res where
    res: "lane_loop C bcf ln ds c [] lane_items = Inr res"
    and names: "map dr_lane_name res =
         map ((@) ln) (map (\<lambda>i. barcode_suffix (barcode_id i))
                        (filter (\<lambda>i. has_key bcf (barcode_id i)) lane_items))"
    by (auto simp: comp_def)
  have "distinct (map dr_lane_name res)"
    unfolding names using suffixes by (simp add: distinct_map inj_on_def)
  with pl res show ?thesis by simp
qed

theorem lane_names_distinct_without_split_witness:
  "[sample_A, sample_C, sample_B] \<noteq> []
   \<and> splitting_off scenario_config [sample_A, sample_C, sample_B]
   \<and> distinct (map (\<lambda>i. barcode_suffix (barcode_id i))
        (filter (\<lambda>i. has_key [(AStr ''A'', (''A_1.fq'', Some ''A_2.fq'')),
                               (AStr ''B'', (''B_1.fq'', Some ''B_2.fq''))] (barcode_id i))
           [sample_A, sample_C, sample_B]))
   \<and> (\<exists>out. process_lane two_barcode_collab [sample_A, sample_C, sample_B] ''FC1'' ''2020-01-01''
               scenario_dirs scenario_config = Inr out
            \<and> distinct (map dr_lane_name out))"
proof -
  have a: "[sample_A, sample_C, sample_B] \<noteq> []" by simp
  have b: "get_fastq_files two_barcode_collab (dirs_fastq scenario_dirs) (dirs_work scenario_dirs)
             (hd [sample_A, sample_C, sample_B]) ''FC1'' scenario_dirs
             (update_config_w_custom scenario_config (hd [sample_A, sample_C, sample_B]))
           = Inr (''lane_1.fq'', Some ''lane_2.fq'')"
    by (simp add: two_barcode_collab_def scenario_collab_def)
  have c: "split_by_barcode two_barcode_collab ''lane_1.fq'' (Some ''lane_2.fq'')
             [sample_A, sample_C, sample_B]
             (base_lane_name (hd [sample_A, sample_C, sample_B]) ''2020-01-01'' ''FC1'')
             scenario_dirs scenario_config
           = Inr [(AStr ''A'', (''A_1.fq'', Some ''A_2.fq'')),
                  (AStr ''B'', (''B_1.fq'', Some ''B_2.fq''))]"
    by (simp add: two_barcode_collab_def scenario_collab_def)
  have d: "splitting_off scenario_config [sample_A, sample_C, sample_B]"
    by (simp add: scenario_defs model_defs)
  have e: "distinct (map (\<lambda>i. barcode_suffix (barcode_id i))
        (filter (\<lambda>i. has_key [(AStr ''A'', (''A_1.fq'', Some ''A_2.fq'')),
                               (AStr ''B'', (''B_1.fq'', Some ''B_2.fq''))] (barcode_id i))
           [sample_A, sample_C, sample_B]))"
    by (simp add: scenario_defs has_key_def barcode_suffix_def)
  show ?thesis
    using a d e lane_names_distinct_without_split [OF a b c d e] by blast
qed

text \<open>The lane name of any record, and the loop in terms of the units.\<close>

lemma lane_name_any_unit:
  "dr_lane_name (lane_record ln ds c item (fastq1, fastq2, lane_ext))
     = ln @ barcode_suffix (barcode_id item) @ split_suffix lane_ext"
  by (simp add: lane_record_def barcode_suffix_def split_suffix_def Let_def)

lemma lane_loop_units:
  "lane_loop C bcf ln ds c out items =
     (case lane_units C bcf ds c items of
        Inl e \<Rightarrow> Inl e
      | Inr units \<Rightarrow> Inr (out @ map (\<lambda>(item, c', u). lane_record ln ds c' item u) units))"
proof (induction items arbitrary: c out)
  case Nil
  show ?case by simp
next
  case (Cons item items)
  define c' where "c' = update_config_w_custom c item"
  show ?case
  proof (cases "has_key bcf (barcode_id item)")
    case False
    then show ?thesis using Cons.IH [of c' out] by (simp add: c'_def Let_def)
  next
    case True
    show ?thesis
    proof (cases "prep_fastq_files C item bcf ds c'")
      case (Inl e)
      with True show ?thesis by (simp add: c'_def Let_def)
    next
      case (Inr us)
      have l: "lane_loop C bcf ln ds c out (item # items)
                 = lane_loop C bcf ln ds c' (out @ map (lane_record ln ds c' item) us) items"
        using True Inr by (simp add: c'_def Let_def)
      have r: "lane_units C bcf ds c (item # items) =
                 (case lane_units C bcf ds c' items of
                    Inl e \<Rightarrow> Inl e
                  | Inr rest \<Rightarrow> Inr (map (\<lambda>u. (item, c', u)) us @ rest))"
        using True Inr unfolding c'_def by (simp add: Let_def)
      show ?thesis
        unfolding l r Cons.IH [of c' "out @ map (lane_record ln ds c' item) us"]
        by (simp add: comp_def split: sum.splits)
    qed
  qed
qed

text \<open>
  C2, as the code has it.  When discovery and demultiplexing succeed, \<open>process_lane\<close>
  fails exactly when the computation of the units fails, and otherwise returns one record
  per unit, in order: the record of a unit belongs to the unit's sample, and its lane name
  is the base name followed by \<open>_{barcode_id}\<close> when the barcode id is not null and by
  \<open>_s{split-index}\<close> when the split index is not null.  So the lane names of one call
  are pairwise different exactly when these suffixes of its units are pairwise different;
  nothing else in \<open>process_lane\<close> makes them so.
\<close>

theorem lane_names_distinct_iff:
  assumes nonempty: "lane_items \<noteq> []"
    and discover: "get_fastq_files C (dirs_fastq ds) (dirs_work ds) (hd lane_items) fc_name ds
                     (update_config_w_custom c (hd lane_items)) = Inr (f1, f2)"
    and demux: "split_by_barcode C f1 f2 lane_items (base_lane_name (hd lane_items) fc_date fc_name)
                  ds c = Inr bcf"
  shows "(case lane_units C bcf ds c lane_items of
            Inl e \<Rightarrow> process_lane C lane_items fc_name fc_date ds c = Inl e
          | Inr units \<Rightarrow>
              (\<exists>out. process_lane C lane_items fc_name fc_date ds c = Inr out
                 \<and> map dr_info out = map fst units
                 \<and> map dr_lane_name out =
                     map (\<lambda>(item, c', fastq1, fastq2, lane_ext).
                            base_lane_name (hd lane_items) fc_date fc_name
                            @ barcode_suffix (barcode_id item) @ split_suffix lane_ext) units
                 \<and> distinct (map dr_lane_name out) =
                     distinct (map (\<lambda>(item, c', fastq1, fastq2, lane_ext).
                                      barcode_suffix (barcode_id item) @ split_suffix lane_ext)
                                 units)))"
proof -
  define ln where "ln = base_lane_name (hd lane_items) fc_date fc_name"
  obtain item0 rest where cons: "lane_items = item0 # rest"
    using nonempty by (cases lane_items) simp_all
  have pl: "process_lane C lane_items fc_name fc_date ds c = lane_loop C bcf ln ds c [] lane_items"
    using discover demux unfolding process_lane_def cons ln_def
    by (simp add: collab_def Let_def del: lane_loop.simps)
  show ?thesis
  proof (cases "lane_units C bcf ds c lane_items")
    case (Inl e)
    then show ?thesis by (simp add: pl lane_loop_units)
  next
    case (Inr units)
    define out where "out = map (\<lambda>(item, c', u). lane_record ln ds c' item u) units"
    have run: "process_lane C lane_items fc_name fc_date ds c = Inr out"
      by (simp add: pl lane_loop_units Inr out_def)
    have infos: "map dr_info out = map fst units"
      by (simp add: out_def case_prod_beta)
    have names: "map dr_lane_name out =
                   map (\<lambda>(item, c', fastq1, fastq2, lane_ext).
                          ln @ barcode_suffix (barcode_id item) @ split_suffix lane_ext) units"
      by (auto simp: out_def lane_name_any_unit)
    have "map dr_lane_name out =
            map ((@) ln) (map (\<lambda>(item, c', fastq1, fastq2, lane_ext).
                                 barcode_suffix (barcode_id item) @ split_suffix lane_ext) units)"
      by (simp add: names case_prod_beta)
    then have iff: "distinct (map dr_lane_name out) =
                      distinct (map (\<lambda>(item, c', fastq1, fastq2, lane_ext).
                                       barcode_suffix (barcode_id item) @ split_suffix lane_ext)
                                  units)"
      by (simp add: distinct_map inj_on_def)
    from run infos names iff show ?thesis
      unfolding ln_def Inr by simp
  qed
qed

text \<open>The splitting scenario: two samples, two chunks each.\<close>

lemma str_int_0: "str_int 0 = ''0''"
  by (simp add: str_int_def) (subst str_nat.simps, simp add: digit_char_def)

lemma str_int_1: "str_int 1 = ''1''"
  by (simp add: str_int_def) (subst str_nat.simps, simp add: digit_char_def)

lemma scenario_suffixes: "barcode_suffix (barcode_id sample_A) = ''_A''" "barcode_suffix (barcode_id sample_B) = ''_B''"
    "split_suffix (AInt 0) = ''_s0''" "split_suffix (AInt 1) = ''_s1''"
    by (simp_all add: barcode_suffix_def split_suffix_def sample_A_def sample_B_def str_int_0 str_int_1)

lemmas eval_defs =
  scenario_defs split_config_def sample_A_split_def sample_A_s1_def mixed_collab_def
  process_lane_def base_lane_name_def collab_def update_config_w_custom_def deepcopy_def
  overlay_def iteritems_def dict_get_def name_remaps_def apply_custom_def has_key_def
  prep_fastq_files_def split_size_def Let_def

lemma split_scenario_units: "lane_units two_barcode_collab
                 [(AStr ''A'', (''A_1.fq'', Some ''A_2.fq'')),
                  (AStr ''B'', (''B_1.fq'', Some ''B_2.fq''))] scenario_dirs split_config
                 [sample_A, sample_B]
               = Inr [(sample_A, split_config, ''A_1.fq'', Some ''A_2.fq'', AInt 0),
                      (sample_A, split_config, ''A_1.fq'', Some ''A_2.fq'', AInt 1),
                      (sample_B, split_config, ''B_1.fq'', Some ''B_2.fq'', AInt 0),
                      (sample_B, split_config, ''B_1.fq'', Some ''B_2.fq'', AInt 1)]"
    by (simp add: eval_defs)

theorem lane_names_distinct_iff_witness:
  "[sample_A, sample_B] \<noteq> []
   \<and> (\<exists>out. process_lane two_barcode_collab [sample_A, sample_B] ''FC1'' ''2020-01-01''
               scenario_dirs split_config = Inr out
         \<and> map dr_info out = [sample_A, sample_A, sample_B, sample_B]
         \<and> map dr_lane_name out =
             [''1_2020-01-01_FC1_A_s0'', ''1_2020-01-01_FC1_A_s1'',
              ''1_2020-01-01_FC1_B_s0'', ''1_2020-01-01_FC1_B_s1'']
         \<and> distinct (map dr_lane_name out))"
proof -
  have a: "[sample_A, sample_B] \<noteq> []" by simp
  have b: "get_fastq_files two_barcode_collab (dirs_fastq scenario_dirs) (dirs_work scenario_dirs)
             (hd [sample_A, sample_B]) ''FC1'' scenario_dirs
             (update_config_w_custom split_config (hd [sample_A, sample_B]))
           = Inr (''lane_1.fq'', Some ''lane_2.fq'')"
    by (simp add: two_barcode_collab_def scenario_collab_def)
  have c: "split_by_barcode two_barcode_collab ''lane_1.fq'' (Some ''lane_2.fq'')
             [sample_A, sample_B]
             (base_lane_name (hd [sample_A, sample_B]) ''2020-01-01'' ''FC1'')
             scenario_dirs split_config
           = Inr [(AStr ''A'', (''A_1.fq'', Some ''A_2.fq'')),
                  (AStr ''B'', (''B_1.fq'', Some ''B_2.fq''))]"
    by (simp add: two_barcode_collab_def scenario_collab_def)
  have base: "base_lane_name (hd [sample_A, sample_B]) ''2020-01-01'' ''FC1'' = ''1_2020-01-01_FC1''"
    by (simp add: base_lane_name_def sample_A_def)
  have names: "map (\<lambda>(item, c', fastq1, fastq2, lane_ext).
                  base_lane_name (hd [sample_A, sample_B]) ''2020-01-01'' ''FC1''
                  @ barcode_suffix (barcode_id item) @ split_suffix lane_ext)
               [(sample_A, split_config, ''A_1.fq'', Some ''A_2.fq'', AInt 0),
                (sample_A, split_config, ''A_1.fq'', Some ''A_2.fq'', AInt 1),
                (sample_B, split_config, ''B_1.fq'', Some ''B_2.fq'', AInt 0),
                (sample_B, split_config, ''B_1.fq'', Some ''B_2.fq'', AInt 1)]
             = [''1_2020-01-01_FC1_A_s0'', ''1_2020-01-01_FC1_A_s1'',
                ''1_2020-01-01_FC1_B_s0'', ''1_2020-01-01_FC1_B_s1'']"
    unfolding base by (simp add: scenario_suffixes)
  note th = lane_names_distinct_iff [OF a b c]
  from th obtain out where
    run: "process_lane two_barcode_collab [sample_A, sample_B] ''FC1'' ''2020-01-01''
            scenario_dirs split_config = Inr out"
    and infos: "map dr_info out = map fst
               [(sample_A, split_config, ''A_1.fq'', Some ''A_2.fq'', AInt 0),
                (sample_A, split_config, ''A_1.fq'', Some ''A_2.fq'', AInt 1),
                (sample_B, split_config, ''B_1.fq'', Some ''B_2.fq'', AInt 0),
                (sample_B, split_config, ''B_1.fq'', Some ''B_2.fq'', AInt 1)]"
    and ns: "map dr_lane_name out = map (\<lambda>(item, c', fastq1, fastq2, lane_ext).
                  base_lane_name (hd [sample_A, sample_B]) ''2020-01-01'' ''FC1''
                  @ barcode_suffix (barcode_id item) @ split_suffix lane_ext)
               [(sample_A, split_config, ''A_1.fq'', Some ''A_2.fq'', AInt 0),
                (sample_A, split_config, ''A_1.fq'', Some ''A_2.fq'', AInt 1),
                (sample_B, split_config, ''B_1.fq'', Some ''B_2.fq'', AInt 0),
                (sample_B, split_config, ''B_1.fq'', Some ''B_2.fq'', AInt 1)]"
    unfolding split_scenario_units sum.case by (elim exE conjE) (rule that; assumption)
  have n: "map dr_lane_name out =
             [''1_2020-01-01_FC1_A_s0'', ''1_2020-01-01_FC1_A_s1'',
              ''1_2020-01-01_FC1_B_s0'', ''1_2020-01-01_FC1_B_s1'']"
    unfolding ns names ..
  have i: "map dr_info out = [sample_A, sample_A, sample_B, sample_B]"
    unfolding infos by simp
  have d: "distinct (map dr_lane_name out)" unfolding n by simp
  show ?thesis
    by (intro conjI exI [of _ out]) (rule a run i n d)+
qed

text \<open>
  C2 as stated fails.  Two samples with the same barcode id give two different records
  with the same lane name; and so do two samples with different barcode ids, \<open>A\<close> (split
  into chunks 0 and 1) and \<open>A_s1\<close> (not split).
\<close>

lemma mixed_run:
  "process_lane mixed_collab [sample_A_split, sample_A_s1] ''FC1'' ''2020-01-01''
       scenario_dirs scenario_config
   = Inr [lane_record ''1_2020-01-01_FC1'' scenario_dirs
            (scenario_config\<lparr>algorithm := [(''align_split_size'', PInt 1000000)]\<rparr>)
            sample_A_split (''A_1.fq'', Some ''A_2.fq'', AInt 0),
          lane_record ''1_2020-01-01_FC1'' scenario_dirs
            (scenario_config\<lparr>algorithm := [(''align_split_size'', PInt 1000000)]\<rparr>)
            sample_A_split (''A_1.fq'', Some ''A_2.fq'', AInt 1),
          lane_record ''1_2020-01-01_FC1'' scenario_dirs
            (scenario_config\<lparr>algorithm := [(''align_split_size'', PInt 0)]\<rparr>)
            sample_A_s1 (''A_s1_1.fq'', Some ''A_s1_2.fq'', ANone)]"
  by (simp add: eval_defs)


theorem lane_names_collide:
  "(case process_lane scenario_collab [sample_A, sample_A_replicate] ''FC1'' ''2020-01-01''
           scenario_dirs scenario_config of
      Inr [r1, r2] \<Rightarrow>
        r1 \<noteq> r2 \<and> dr_lane_name r1 = ''1_2020-01-01_FC1_A'' \<and> dr_lane_name r2 = ''1_2020-01-01_FC1_A''
    | _ \<Rightarrow> False)
   \<and> (case process_lane mixed_collab [sample_A_split, sample_A_s1] ''FC1'' ''2020-01-01''
             scenario_dirs scenario_config of
        Inr [r1, r2, r3] \<Rightarrow>
          barcode_id (dr_info r2) = AStr ''A'' \<and> barcode_id (dr_info r3) = AStr ''A_s1''
          \<and> dr_lane_name r2 = ''1_2020-01-01_FC1_A_s1''
          \<and> dr_lane_name r3 = ''1_2020-01-01_FC1_A_s1''
      | _ \<Rightarrow> False)"
proof
  show "(case process_lane scenario_collab [sample_A, sample_A_replicate] ''FC1'' ''2020-01-01''
           scenario_dirs scenario_config of
      Inr [r1, r2] \<Rightarrow>
        r1 \<noteq> r2 \<and> dr_lane_name r1 = ''1_2020-01-01_FC1_A'' \<and> dr_lane_name r2 = ''1_2020-01-01_FC1_A''
    | _ \<Rightarrow> False)"
    by (simp add: scenario_defs model_defs)
  show "(case process_lane mixed_collab [sample_A_split, sample_A_s1] ''FC1'' ''2020-01-01''
             scenario_dirs scenario_config of
        Inr [r1, r2, r3] \<Rightarrow>
          barcode_id (dr_info r2) = AStr ''A'' \<and> barcode_id (dr_info r3) = AStr ''A_s1''
          \<and> dr_lane_name r2 = ''1_2020-01-01_FC1_A_s1''
          \<and> dr_lane_name r3 = ''1_2020-01-01_FC1_A_s1''
      | _ \<Rightarrow> False)"
    unfolding mixed_run
    by (simp add: lane_name_any_unit barcode_suffix_def split_suffix_def str_int_1
          sample_A_split_def sample_A_s1_def sample_A_def)
qed

subsection \<open>\<open>_update_config_w_custom\<close> on the store\<close>

text \<open>Frame: what the copy and the assignments leave as it was.\<close>

lemma memo_fresh_lookup:
  "memo_fresh n s m \<Longrightarrow> map_of m a = Some b \<Longrightarrow> n \<le> b \<and> b < length s"
  by (auto simp: memo_fresh_def list_all_iff dest!: map_of_SomeD)

lemma memo_fresh_grow:
  "memo_fresh n s m \<Longrightarrow> memo_fresh n (s @ ext) m"
  by (auto simp: memo_fresh_def list_all_iff)

lemma copy_dict_frame:
  assumes "copy_dict a (s, m) = Some (b, s', m')" and "n \<le> length s" and "memo_fresh n s m"
  shows "length s \<le> length s' \<and> take n s' = take n s \<and> n \<le> b \<and> b < length s'
         \<and> memo_fresh n s' m'"
proof (cases "map_of m a")
  case (Some b0)
  with assms(1) have "b = b0" "s' = s" "m' = m" by (simp_all add: copy_dict_def)
  with assms(2,3) Some memo_fresh_lookup [OF assms(3) Some] show ?thesis by simp
next
  case None
  with assms(1) obtain d where "store_get s a = Some d" "b = length s" "s' = s @ [d]"
    "m' = (a, length s) # m"
    by (auto simp: copy_dict_def split: option.splits)
  with assms(2,3) show ?thesis
    by (simp add: memo_fresh_def list_all_iff) fastforce
qed

lemma copy_bundles_frame:
  "copy_bundles bs (s, m) = Some (bs', s', m') \<Longrightarrow> n \<le> length s \<Longrightarrow> memo_fresh n s m \<Longrightarrow>
   length s \<le> length s' \<and> take n s' = take n s \<and> memo_fresh n s' m'
   \<and> list_all (\<lambda>b. n \<le> b \<and> b < length s') (map snd bs')
   \<and> map fst bs' = map fst bs"
proof (induction bs arbitrary: s m bs')
  case Nil
  then show ?case by simp
next
  case (Cons kb bs)
  obtain k a where kb: "kb = (k, a)" by (cases kb)
  from Cons.prems(1) obtain b s1 m1 bs1 where
    cd: "copy_dict a (s, m) = Some (b, s1, m1)"
    and cb: "copy_bundles bs (s1, m1) = Some (bs1, s', m')"
    and bs': "bs' = (k, b) # bs1"
    by (auto simp: kb split: option.splits)
  from copy_dict_frame [OF cd Cons.prems(2,3)]
  have 1: "length s \<le> length s1" "take n s1 = take n s" "n \<le> b" "b < length s1"
    "memo_fresh n s1 m1" by simp_all
  from 1(1) Cons.prems(2) have n1: "n \<le> length s1" by simp
  from Cons.IH [OF cb n1 1(5)]
  have 2: "length s1 \<le> length s'" "take n s' = take n s1" "memo_fresh n s' m'"
    "list_all (\<lambda>b. n \<le> b \<and> b < length s') (map snd bs1)" "map fst bs1 = map fst bs"
    by simp_all
  from 1 2 show ?case by (simp add: bs' kb)
qed

lemma deepcopy_store_frame:
  assumes "deepcopy_store s c = Some (c', s')"
  shows "length s \<le> length s' \<and> take (length s) s' = s
         \<and> list_all (\<lambda>b. length s \<le> b \<and> b < length s') (config_addrs c')
         \<and> map fst (custom_algorithms_at c') = map fst (custom_algorithms_at c)"
proof -
  from assms obtain a' s1 m1 bs' s2 m2 where
    cd: "copy_dict (algorithm_at c) (s, []) = Some (a', s1, m1)"
    and cb: "copy_bundles (custom_algorithms_at c) (s1, m1) = Some (bs', s2, m2)"
    by (auto simp: deepcopy_store_def split: option.splits)
  have m0: "memo_fresh (length s) s []" by (simp add: memo_fresh_def)
  from copy_dict_frame [OF cd order_refl m0]
  have 1: "length s \<le> length s1" "take (length s) s1 = s" "length s \<le> a'" "a' < length s1"
    "memo_fresh (length s) s1 m1" by simp_all
  from copy_bundles_frame [OF cb 1(1) 1(5)]
  have 2: "length s1 \<le> length s2" "take (length s) s2 = s" "memo_fresh (length s) s2 m2"
    "list_all (\<lambda>b. length s \<le> b \<and> b < length s2) (map snd bs')"
    "map fst bs' = map fst (custom_algorithms_at c)"
    using 1(2) by simp_all
  show ?thesis
  proof (cases "distributed_at c")
    case None
    with assms cd cb have "c' = \<lparr>algorithm_at = a', custom_algorithms_at = bs', distributed_at = None\<rparr>"
      "s' = s2"
      by (simp_all add: deepcopy_store_def)
    with 1 2 show ?thesis by (simp add: config_addrs_def)
  next
    case (Some d)
    with assms cd cb obtain d' m3 where
      cd3: "copy_dict d (s2, m2) = Some (d', s', m3)"
      and c': "c' = \<lparr>algorithm_at = a', custom_algorithms_at = bs', distributed_at = Some d'\<rparr>"
      by (auto simp: deepcopy_store_def split: option.splits)
    from 1(1) 2(1) have n2: "length s \<le> length s2" by simp
    from copy_dict_frame [OF cd3 n2 2(3)]
    have 3: "length s2 \<le> length s'" "take (length s) s' = s" "length s \<le> d'" "d' < length s'"
      using 2(2) by simp_all
    from 2(4) 3(1) have "list_all (\<lambda>b. length s \<le> b \<and> b < length s') (map snd bs')"
      by (auto simp: list_all_iff)
    with 1 2 3 show ?thesis by (simp add: config_addrs_def c')
  qed
qed

lemma setitem_at_frame:
  "setitem_at s dst key val = Some s' \<Longrightarrow> n \<le> dst \<Longrightarrow>
   length s' = length s \<and> take n s' = take n s"
  by (auto simp: setitem_at_def split: if_splits)

lemma setitems_at_frame:
  "setitems_at kvs dst s = Some s' \<Longrightarrow> n \<le> dst \<Longrightarrow>
   length s' = length s \<and> take n s' = take n s"
proof (induction kvs arbitrary: s)
  case Nil
  then show ?case by simp
next
  case (Cons kv kvs)
  obtain key val where kv: "kv = (key, val)" by (cases kv)
  from Cons.prems(1) obtain s1 where
    1: "setitem_at s dst key val = Some s1" and 2: "setitems_at kvs dst s1 = Some s'"
    by (auto simp: kv split: option.splits)
  from setitem_at_frame [OF 1 Cons.prems(2)] Cons.IH [OF 2 Cons.prems(2)]
  show ?case by simp
qed

lemma overlay_store_frame:
  "overlay_store d dst s = Some s' \<Longrightarrow> n \<le> dst \<Longrightarrow>
   length s' = length s \<and> take n s' = take n s"
  unfolding overlay_store_def by (rule setitems_at_frame)

lemma apply_custom_store_frame:
  "apply_custom_store c t s = Some s' \<Longrightarrow> n \<le> algorithm_at c \<Longrightarrow>
   length s' = length s \<and> take n s' = take n s"
  by (auto simp: apply_custom_store_def split: option.splits if_splits dest: overlay_store_frame)

lemma apply_customs_store_frame:
  "apply_customs_store c ts s = Some s' \<Longrightarrow> n \<le> algorithm_at c \<Longrightarrow>
   length s' = length s \<and> take n s' = take n s"
proof (induction ts arbitrary: s)
  case Nil
  then show ?case by simp
next
  case (Cons t ts)
  from Cons.prems(1) obtain s1 where
    1: "apply_custom_store c t s = Some s1" and 2: "apply_customs_store c ts s1 = Some s'"
    by (auto split: option.splits)
  from apply_custom_store_frame [OF 1 Cons.prems(2)] Cons.IH [OF 2 Cons.prems(2)]
  show ?case by simp
qed

lemma update_config_w_custom_store_frame:
  assumes "update_config_w_custom_store s c lane_info = Some (c', s')"
  shows "length s \<le> length s' \<and> take (length s) s' = s
         \<and> list_all (\<lambda>b. length s \<le> b \<and> b < length s') (config_addrs c')"
proof -
  from assms obtain s1 s2 where
    dc: "deepcopy_store s c = Some (c', s1)"
    and ac: "apply_customs_store c'
               (dict_get name_remaps (analysis_in lane_info) [analysis_in lane_info]) s1 = Some s2"
    and last: "s' = s2 \<or> (\<exists>ov. overlay_store ov (algorithm_at c') s2 = Some s')"
    by (fastforce simp: update_config_w_custom_store_def Let_def split: option.splits)
  from deepcopy_store_frame [OF dc]
  have 1: "length s \<le> length s1" "take (length s) s1 = s"
    "list_all (\<lambda>b. length s \<le> b \<and> b < length s1) (config_addrs c')" by simp_all
  from 1(3) have dst: "length s \<le> algorithm_at c'" by (simp add: config_addrs_def)
  from apply_customs_store_frame [OF ac dst]
  have 2: "length s2 = length s1" "take (length s) s2 = s" using 1(2) by simp_all
  from last have 3: "length s' = length s2 \<and> take (length s) s' = take (length s) s2"
    using overlay_store_frame [of _ "algorithm_at c'" s2 s' "length s"] dst by auto
  from 1 2 3 show ?thesis by simp
qed

text \<open>With every reference inside the store, each step returns.\<close>

lemma copy_dict_total:
  "a < length s \<Longrightarrow> \<exists>b s' m'. copy_dict a (s, m) = Some (b, s', m') \<and> length s \<le> length s'"
  by (auto simp: copy_dict_def store_get_def split: option.splits)

lemma copy_bundles_total:
  "list_all (\<lambda>a. a < length s) (map snd bs) \<Longrightarrow>
   \<exists>bs' s' m'. copy_bundles bs (s, m) = Some (bs', s', m') \<and> length s \<le> length s'"
proof (induction bs arbitrary: s m)
  case Nil
  show ?case by simp
next
  case (Cons kb bs)
  obtain k a where kb: "kb = (k, a)" by (cases kb)
  from Cons.prems have a: "a < length s" and rest: "list_all (\<lambda>a. a < length s) (map snd bs)"
    by (simp_all add: kb)
  from copy_dict_total [OF a, of m] obtain b s1 m1 where
    cd: "copy_dict a (s, m) = Some (b, s1, m1)" and len: "length s \<le> length s1" by blast
  from rest len have "list_all (\<lambda>a. a < length s1) (map snd bs)"
    by (auto simp: list_all_iff)
  from Cons.IH [OF this, of m1] obtain bs' s' m' where
    cb: "copy_bundles bs (s1, m1) = Some (bs', s', m')" and len': "length s1 \<le> length s'" by blast
  from cd cb len len' show ?case by (simp add: kb)
qed

lemma deepcopy_store_total:
  assumes "valid_config s c"
  shows "\<exists>c' s'. deepcopy_store s c = Some (c', s')"
proof -
  from assms have a: "algorithm_at c < length s"
    and bs: "list_all (\<lambda>a. a < length s) (map snd (custom_algorithms_at c))"
    and d: "\<And>d. distributed_at c = Some d \<Longrightarrow> d < length s"
    by (auto simp: valid_config_def config_addrs_def list_all_iff split: option.splits)
  from copy_dict_total [OF a, of "[]"] obtain a' s1 m1 where
    cd: "copy_dict (algorithm_at c) (s, []) = Some (a', s1, m1)" and l1: "length s \<le> length s1"
    by blast
  from bs l1 have "list_all (\<lambda>a. a < length s1) (map snd (custom_algorithms_at c))"
    by (auto simp: list_all_iff)
  from copy_bundles_total [OF this, of m1] obtain bs' s2 m2 where
    cb: "copy_bundles (custom_algorithms_at c) (s1, m1) = Some (bs', s2, m2)"
    and l2: "length s1 \<le> length s2" by blast
  show ?thesis
  proof (cases "distributed_at c")
    case None
    with cd cb show ?thesis by (simp add: deepcopy_store_def)
  next
    case (Some d0)
    from d [OF Some] l1 l2 have "d0 < length s2" by simp
    from copy_dict_total [OF this, of m2] obtain d' s3 m3 where
      "copy_dict d0 (s2, m2) = Some (d', s3, m3)" by blast
    with cd cb Some show ?thesis by (simp add: deepcopy_store_def)
  qed
qed

lemma setitems_at_total:
  "dst < length s \<Longrightarrow> \<exists>s'. setitems_at kvs dst s = Some s'"
proof (induction kvs arbitrary: s)
  case Nil
  show ?case by simp
next
  case (Cons kv kvs)
  obtain key val where kv: "kv = (key, val)" by (cases kv)
  from Cons.prems have 1: "setitem_at s dst key val = Some (s[dst := AList.update key val (s ! dst)])"
    by (simp add: setitem_at_def)
  from Cons.IH [of "s[dst := AList.update key val (s ! dst)]"] Cons.prems 1
  show ?case by (simp add: kv)
qed

lemma apply_custom_store_total:
  "list_all (\<lambda>a. a < length s) (config_addrs c) \<Longrightarrow> \<exists>s'. apply_custom_store c t s = Some s'"
proof (cases "map_of (custom_algorithms_at c) t")
  case None
  then show ?thesis by (simp add: apply_custom_store_def)
next
  case (Some a)
  assume v: "list_all (\<lambda>a. a < length s) (config_addrs c)"
  from Some have "a \<in> snd ` set (custom_algorithms_at c)"
    by (auto dest!: map_of_SomeD simp: image_iff) force
  with v have a: "a < length s" and dst: "algorithm_at c < length s"
    by (auto simp: config_addrs_def list_all_iff)
  from setitems_at_total [OF dst] a Some show ?thesis
    by (simp add: apply_custom_store_def store_get_def overlay_store_def)
qed

lemma apply_customs_store_total:
  "list_all (\<lambda>a. a < length s) (config_addrs c) \<Longrightarrow> \<exists>s'. apply_customs_store c ts s = Some s'"
proof (induction ts arbitrary: s)
  case Nil
  show ?case by simp
next
  case (Cons t ts)
  from apply_custom_store_total [OF Cons.prems, of t] obtain s1 where
    1: "apply_custom_store c t s = Some s1" by blast
  have dst: "0 \<le> algorithm_at c" by simp
  from apply_custom_store_frame [OF 1 dst] have "length s1 = length s" by simp
  with Cons.prems have "list_all (\<lambda>a. a < length s1) (config_addrs c)" by simp
  from Cons.IH [OF this] 1 show ?case by simp
qed

lemma update_config_w_custom_store_total:
  assumes "valid_config s c" and "valid_info s lane_info"
  shows "\<exists>c' s'. update_config_w_custom_store s c lane_info = Some (c', s')"
proof -
  from deepcopy_store_total [OF assms(1)] obtain c' s1 where
    dc: "deepcopy_store s c = Some (c', s1)" by blast
  from deepcopy_store_frame [OF dc]
  have l1: "length s \<le> length s1"
    and v1: "list_all (\<lambda>b. length s \<le> b \<and> b < length s1) (config_addrs c')" by simp_all
  from v1 have v1': "list_all (\<lambda>a. a < length s1) (config_addrs c')"
    by (auto simp: list_all_iff)
  from apply_customs_store_total [OF v1'] obtain s2 where
    ac: "apply_customs_store c'
           (dict_get name_remaps (analysis_in lane_info) [analysis_in lane_info]) s1 = Some s2"
    by blast
  have "0 \<le> algorithm_at c'" by simp
  from apply_customs_store_frame [OF ac this] have l2: "length s2 = length s1" by simp
  show ?thesis
  proof (cases "algorithm_in lane_info")
    case None
    with dc ac show ?thesis by (simp add: update_config_w_custom_store_def)
  next
    case (Some a)
    with assms(2) l1 l2 have a: "a < length s2" by (simp add: valid_info_def)
    from v1' l2 have "algorithm_at c' < length s2" by (simp add: config_addrs_def)
    from setitems_at_total [OF this] obtain s3 where
      "overlay_store (s2 ! a) (algorithm_at c') s2 = Some s3"
      unfolding overlay_store_def by blast
    with dc ac Some a show ?thesis
      by (simp add: update_config_w_custom_store_def store_get_def)
  qed
qed

text \<open>
  C9.  For every configuration and sample descriptor whose references lie in the store,
  \<open>_update_config_w_custom\<close> returns, every dictionary object that existed before the
  call (the global \<open>algorithm\<close> mapping, the bundles of \<open>custom_algorithms\<close>,
  \<open>distributed\<close>, the sample's \<open>algorithm\<close> mapping) has the contents it had, and the
  configuration returned refers only to objects the call allocated: it is a deep copy.
\<close>

theorem update_config_w_custom_keeps_inputs:
  assumes "valid_config s c" and "valid_info s lane_info"
  shows "\<exists>c' s'. update_config_w_custom_store s c lane_info = Some (c', s')
           \<and> (\<forall>a. a < length s \<longrightarrow> store_get s' a = store_get s a)
           \<and> list_all (\<lambda>b. length s \<le> b \<and> b < length s') (config_addrs c')"
proof -
  from update_config_w_custom_store_total [OF assms] obtain c' s' where
    run: "update_config_w_custom_store s c lane_info = Some (c', s')" by blast
  from update_config_w_custom_store_frame [OF run]
  have len: "length s \<le> length s'" and same: "take (length s) s' = s"
    and fresh: "list_all (\<lambda>b. length s \<le> b \<and> b < length s') (config_addrs c')" by simp_all
  have "store_get s' a = store_get s a" if "a < length s" for a
  proof -
    from that have "take (length s) s' ! a = s' ! a" by simp
    with same that len show ?thesis by (simp add: store_get_def)
  qed
  with run fresh show ?thesis by blast
qed

theorem update_config_w_custom_keeps_inputs_witness:
  "valid_config precedence_store precedence_config_refs
   \<and> valid_info precedence_store precedence_info_refs
   \<and> (\<exists>c' s'. update_config_w_custom_store precedence_store precedence_config_refs
                  precedence_info_refs = Some (c', s')
         \<and> store_get s' 0 = Some [(''x'', PInt 1)]
         \<and> store_get s' 1 = Some [(''x'', PInt 2)]
         \<and> store_get s' 2 = Some [(''x'', PInt 3)]
         \<and> list_all (\<lambda>b. 3 \<le> b \<and> b < length s') (config_addrs c'))"
proof -
  have a: "valid_config precedence_store precedence_config_refs"
    by (simp add: valid_config_def config_addrs_def precedence_store_def precedence_config_refs_def)
  have b: "valid_info precedence_store precedence_info_refs"
    by (simp add: valid_info_def precedence_store_def precedence_info_refs_def)
  have len: "length precedence_store = 3" by (simp add: precedence_store_def)
  from update_config_w_custom_keeps_inputs [OF a b] obtain c' s' where
    run: "update_config_w_custom_store precedence_store precedence_config_refs
            precedence_info_refs = Some (c', s')"
    and same: "\<And>a. a < 3 \<Longrightarrow> store_get s' a = store_get precedence_store a"
    and fresh: "list_all (\<lambda>b. 3 \<le> b \<and> b < length s') (config_addrs c')"
    unfolding len by blast
  have old: "store_get precedence_store 0 = Some [(''x'', PInt 1)]"
    "store_get precedence_store 1 = Some [(''x'', PInt 2)]"
    "store_get precedence_store 2 = Some [(''x'', PInt 3)]"
    by (simp_all add: store_get_def precedence_store_def)
  have "store_get s' 0 = Some [(''x'', PInt 1)]" "store_get s' 1 = Some [(''x'', PInt 2)]"
    "store_get s' 2 = Some [(''x'', PInt 3)]"
    using same [of 0] same [of 1] same [of 2] old by simp_all
  with a b run fresh show ?thesis by blast
qed

text \<open>The run of the precedence example: objects 0 to 2 are as before, 3 and 4 are new.\<close>

lemma precedence_store_run:
  "update_config_w_custom_store precedence_store precedence_config_refs precedence_info_refs
     = Some (\<lparr>algorithm_at = 3, custom_algorithms_at = [(Some ''Minimal'', 4)], distributed_at = None\<rparr>,
             [[(''x'', PInt 1)], [(''x'', PInt 2)], [(''x'', PInt 3)],
              [(''x'', PInt 3)], [(''x'', PInt 2)]])"
  by (simp add: update_config_w_custom_store_def deepcopy_store_def copy_dict_def store_get_def
        precedence_store_def precedence_config_refs_def precedence_info_refs_def
        dict_get_def name_remaps_def apply_custom_store_def overlay_store_def iteritems_def
        setitem_at_def Let_def)

subsection \<open>The two models of \<open>_update_config_w_custom\<close> agree\<close>

text \<open>
  \<open>deepcopy\<close> on the store gives a configuration with the same value, and keeps the
  \<open>algorithm\<close> object apart from the other objects when it was apart before.
\<close>

lemma memo_copies_nth: "memo_copies s0 s m \<Longrightarrow> a < length s0 \<Longrightarrow> s ! a = s0 ! a"
  by (metis memo_copies_def nth_take)

lemma copy_dict_copies:
  assumes cd: "copy_dict a (s, m) = Some (b, s', m')" and inv: "memo_copies s0 s m"
    and a: "a < length s0"
  shows "memo_copies s0 s' m' \<and> (a, b) \<in> set m' \<and> set m \<subseteq> set m'"
proof (cases "map_of m a")
  case (Some b0)
  with cd have "b = b0" "s' = s" "m' = m" by (simp_all add: copy_dict_def)
  with inv Some show ?thesis by (auto dest: map_of_SomeD)
next
  case None
  from inv a have as: "a < length s" by (simp add: memo_copies_def)
  with cd None have b: "b = length s" and s': "s' = s @ [s ! a]" and m': "m' = (a, length s) # m"
    by (auto simp: copy_dict_def store_get_def)
  have sa: "s ! a = s0 ! a" using inv a by (rule memo_copies_nth)
  have 1: "length s0 \<le> length s'" "take (length s0) s' = s0"
    using inv by (simp_all add: memo_copies_def s')
  have 2: "\<forall>(x, y) \<in> set m'. x < length s0 \<and> length s0 \<le> y \<and> y < length s' \<and> s' ! y = s0 ! x"
    using inv a sa by (auto simp: memo_copies_def m' s' nth_append)
  have "\<forall>(x, y) \<in> set m. y \<noteq> length s" using inv by (auto simp: memo_copies_def)
  then have 3: "inj_on snd (set m')"
    using inv unfolding m' memo_copies_def by (auto simp: inj_on_def)
  from 1 2 3 show ?thesis by (auto simp: memo_copies_def b m')
qed

lemma copy_bundles_copies:
  "copy_bundles bs (s, m) = Some (bs', s', m') \<Longrightarrow> memo_copies s0 s m \<Longrightarrow>
   list_all (\<lambda>a. a < length s0) (map snd bs) \<Longrightarrow>
   memo_copies s0 s' m' \<and> set m \<subseteq> set m'
   \<and> list_all2 (\<lambda>ka kb. fst kb = fst ka \<and> (snd ka, snd kb) \<in> set m') bs bs'"
proof (induction bs arbitrary: s m bs')
  case Nil
  then show ?case by simp
next
  case (Cons ka bs)
  obtain k a where ka: "ka = (k, a)" by (cases ka)
  from Cons.prems(1) obtain b s1 m1 bs1 where
    cd: "copy_dict a (s, m) = Some (b, s1, m1)"
    and cb: "copy_bundles bs (s1, m1) = Some (bs1, s', m')"
    and bs': "bs' = (k, b) # bs1"
    by (auto simp: ka split: option.splits)
  from Cons.prems(3) have a: "a < length s0" and rest: "list_all (\<lambda>a. a < length s0) (map snd bs)"
    by (simp_all add: ka)
  from copy_dict_copies [OF cd Cons.prems(2) a]
  have 1: "memo_copies s0 s1 m1" "(a, b) \<in> set m1" "set m \<subseteq> set m1" by simp_all
  from Cons.IH [OF cb 1(1) rest]
  have 2: "memo_copies s0 s' m'" "set m1 \<subseteq> set m'"
    "list_all2 (\<lambda>ka kb. fst kb = fst ka \<and> (snd ka, snd kb) \<in> set m') bs bs1" by simp_all
  from 1 2 show ?case by (auto simp: bs' ka)
qed

lemma memo_copies_content:
  "memo_copies s0 s m \<Longrightarrow> (a, b) \<in> set m \<Longrightarrow> s ! b = s0 ! a"
  by (auto simp: memo_copies_def)

lemma memo_copies_inj:
  "memo_copies s0 s m \<Longrightarrow> (a, b) \<in> set m \<Longrightarrow> (a', b) \<in> set m \<Longrightarrow> a = a'"
  using inj_onD [of snd "set m" "(a, b)" "(a', b)"] by (simp add: memo_copies_def)

lemma memo_copies_grow:
  "memo_copies s0 s m \<Longrightarrow> memo_copies s0 s' m' \<Longrightarrow> set m \<subseteq> set m' \<Longrightarrow> (a, b) \<in> set m
   \<Longrightarrow> s' ! b = s0 ! a"
  by (auto simp: memo_copies_def)

lemma bundles_of_copies:
  assumes "list_all2 (\<lambda>ka kb. fst kb = fst ka \<and> (snd ka, snd kb) \<in> set m) bs bs'"
    and "memo_copies s0 s m"
  shows "map (\<lambda>(k, a). (k, s ! a)) bs' = map (\<lambda>(k, a). (k, s0 ! a)) bs"
  using assms(1)
proof (induction rule: list_all2_induct)
  case Nil
  show ?case by simp
next
  case (Cons ka bs kb bs')
  then show ?case using memo_copies_content [OF assms(2), of "snd ka" "snd kb"]
    by (auto simp: case_prod_beta)
qed

lemma bundles_targets:
  assumes "list_all2 (\<lambda>ka kb. fst kb = fst ka \<and> (snd ka, snd kb) \<in> set m) bs bs'"
    and "b \<in> snd ` set bs'"
  shows "\<exists>a \<in> snd ` set bs. (a, b) \<in> set m"
  using assms by (induction rule: list_all2_induct) auto

lemma deepcopy_store_copies:
  assumes dc: "deepcopy_store s c = Some (c', s')" and valid: "valid_config s c"
  shows "config_of s' c' = config_of s c \<and> (unshared_algorithm c \<longrightarrow> unshared_algorithm c')"
proof -
  from valid have a: "algorithm_at c < length s"
    and bs: "list_all (\<lambda>a. a < length s) (map snd (custom_algorithms_at c))"
    and d: "\<And>d. distributed_at c = Some d \<Longrightarrow> d < length s"
    by (auto simp: valid_config_def config_addrs_def list_all_iff split: option.splits)
  from dc obtain a' s1 m1 bs' s2 m2 where
    cd: "copy_dict (algorithm_at c) (s, []) = Some (a', s1, m1)"
    and cb: "copy_bundles (custom_algorithms_at c) (s1, m1) = Some (bs', s2, m2)"
    by (auto simp: deepcopy_store_def split: option.splits)
  have m0: "memo_copies s s []" by (simp add: memo_copies_def)
  from copy_dict_copies [OF cd m0 a]
  have 1: "memo_copies s s1 m1" "(algorithm_at c, a') \<in> set m1" by simp_all
  from copy_bundles_copies [OF cb 1(1) bs]
  have 2: "memo_copies s s2 m2" "set m1 \<subseteq> set m2"
    "list_all2 (\<lambda>ka kb. fst kb = fst ka \<and> (snd ka, snd kb) \<in> set m2)
       (custom_algorithms_at c) bs'" by simp_all
  have main: "config_of s' c' = config_of s c \<and> (unshared_algorithm c \<longrightarrow> unshared_algorithm c')"
    if inv: "memo_copies s s' mF" and sub: "set m2 \<subseteq> set mF"
      and alg: "algorithm_at c' = a'" and cus: "custom_algorithms_at c' = bs'"
      and dis: "case distributed_at c of
                  None \<Rightarrow> distributed_at c' = None
                | Some d0 \<Rightarrow> \<exists>d'. distributed_at c' = Some d' \<and> (d0, d') \<in> set mF"
    for mF
  proof
    have l2: "list_all2 (\<lambda>ka kb. fst kb = fst ka \<and> (snd ka, snd kb) \<in> set mF)
       (custom_algorithms_at c) bs'"
      using 2(3) sub by (auto elim!: list_all2_mono)
    have inF: "(algorithm_at c, a') \<in> set mF" using 1(2) 2(2) sub by auto
    have A: "s' ! a' = s ! algorithm_at c" using memo_copies_content [OF inv inF] .
    have B: "map (\<lambda>(k, a). (k, s' ! a)) bs' = map (\<lambda>(k, a). (k, s ! a)) (custom_algorithms_at c)"
      using bundles_of_copies [OF l2 inv] .
    have D: "map_option ((!) s') (distributed_at c') = map_option ((!) s) (distributed_at c)"
      using dis memo_copies_content [OF inv] by (auto split: option.splits)
    show "config_of s' c' = config_of s c"
      by (simp add: config_of_def alg cus A B D)
    show "unshared_algorithm c \<longrightarrow> unshared_algorithm c'"
    proof
      assume un: "unshared_algorithm c"
      have n1: "a' \<notin> snd ` set bs'"
      proof
        assume "a' \<in> snd ` set bs'"
        from bundles_targets [OF l2 this] obtain a where
          "a \<in> snd ` set (custom_algorithms_at c)" "(a, a') \<in> set mF" by blast
        with memo_copies_inj [OF inv inF] un show False
          by (auto simp: unshared_algorithm_def config_addrs_def)
      qed
      have n2: "distributed_at c' \<noteq> Some a'"
      proof
        assume "distributed_at c' = Some a'"
        with dis obtain d0 where "distributed_at c = Some d0" "(d0, a') \<in> set mF"
          by (auto split: option.splits)
        with memo_copies_inj [OF inv inF] un show False
          by (auto simp: unshared_algorithm_def config_addrs_def)
      qed
      from n1 n2 show "unshared_algorithm c'"
        by (auto simp: unshared_algorithm_def config_addrs_def alg cus split: option.splits)
    qed
  qed
  show ?thesis
  proof (cases "distributed_at c")
    case None
    with dc cd cb have "c' = \<lparr>algorithm_at = a', custom_algorithms_at = bs', distributed_at = None\<rparr>"
      "s' = s2"
      by (simp_all add: deepcopy_store_def)
    with main [of m2] 2 None show ?thesis by simp
  next
    case (Some d0)
    with dc cd cb obtain d' m3 where
      cd3: "copy_dict d0 (s2, m2) = Some (d', s', m3)"
      and c': "c' = \<lparr>algorithm_at = a', custom_algorithms_at = bs', distributed_at = Some d'\<rparr>"
      by (auto simp: deepcopy_store_def split: option.splits)
    from copy_dict_copies [OF cd3 2(1) d [OF Some]]
    have "memo_copies s s' m3" "(d0, d') \<in> set m3" "set m2 \<subseteq> set m3" by simp_all
    with main [of m3] Some c' show ?thesis by simp
  qed
qed

text \<open>The assignments on the store are the assignments on the value.\<close>

lemma setitems_at_fold:
  "setitems_at kvs dst s = Some s' \<Longrightarrow>
   s' = s[dst := fold (\<lambda>(key, val). AList.update key val) kvs (s ! dst)]"
proof (induction kvs arbitrary: s)
  case Nil
  then show ?case by simp
next
  case (Cons kv kvs)
  obtain key val where kv: "kv = (key, val)" by (cases kv)
  from Cons.prems obtain s1 where
    1: "setitem_at s dst key val = Some s1" and 2: "setitems_at kvs dst s1 = Some s'"
    by (auto simp: kv split: option.splits)
  from 1 have dst: "dst < length s" and s1: "s1 = s[dst := AList.update key val (s ! dst)]"
    by (auto simp: setitem_at_def split: if_splits)
  from Cons.IH [OF 2] dst show ?case by (simp add: s1 kv)
qed

lemma algorithm_fold_update:
  "fold (\<lambda>(key, val) c. c\<lparr>algorithm := AList.update key val (algorithm c)\<rparr>) kvs c
     = c\<lparr>algorithm := fold (\<lambda>(key, val). AList.update key val) kvs (algorithm c)\<rparr>"
  by (induction kvs arbitrary: c) (auto simp: case_prod_beta)

lemma config_of_update:
  assumes "unshared_algorithm c" and "algorithm_at c < length s"
  shows "config_of (s[algorithm_at c := d]) c = (config_of s c)\<lparr>algorithm := d\<rparr>"
proof -
  have b: "map (\<lambda>(k, a). (k, s[algorithm_at c := d] ! a)) (custom_algorithms_at c)
             = map (\<lambda>(k, a). (k, s ! a)) (custom_algorithms_at c)"
    using assms by (auto simp: unshared_algorithm_def config_addrs_def image_iff)
  have d: "map_option ((!) (s[algorithm_at c := d])) (distributed_at c)
             = map_option ((!) s) (distributed_at c)"
    using assms by (cases "distributed_at c") (auto simp: unshared_algorithm_def config_addrs_def)
  show ?thesis using assms(2) by (simp add: config_of_def b d)
qed

lemma overlay_store_config_of:
  assumes "overlay_store d (algorithm_at c) s = Some s'" and "unshared_algorithm c"
    and "algorithm_at c < length s"
  shows "config_of s' c = overlay d (config_of s c)"
proof -
  from setitems_at_fold [OF assms(1) [unfolded overlay_store_def]]
  have "s' = s[algorithm_at c :=
            fold (\<lambda>(key, val). AList.update key val) (iteritems d) (s ! algorithm_at c)]" .
  then show ?thesis
    by (simp add: config_of_update [OF assms(2,3)] overlay_def algorithm_fold_update)
       (simp add: config_of_def)
qed

lemma map_of_bundles:
  "map_of (map (\<lambda>(k, a). (k, s ! a)) bs) t = map_option ((!) s) (map_of bs t)"
  by (induction bs) auto

lemma apply_custom_store_config_of:
  assumes "apply_custom_store c t s = Some s'" and "unshared_algorithm c"
    and "list_all (\<lambda>a. a < length s) (config_addrs c)"
  shows "config_of s' c = apply_custom t (config_of s c)"
proof (cases "map_of (custom_algorithms_at c) t")
  case None
  with assms(1) show ?thesis
    by (simp add: apply_custom_store_def apply_custom_def config_of_def map_of_bundles)
next
  case (Some a)
  from Some have "a \<in> snd ` set (custom_algorithms_at c)"
    by (auto dest!: map_of_SomeD simp: image_iff) force
  with assms(3) have a: "a < length s" and dst: "algorithm_at c < length s"
    by (auto simp: config_addrs_def list_all_iff)
  have look: "map_of (custom_algorithms (config_of s c)) t = Some (s ! a)"
    by (simp add: config_of_def map_of_bundles Some)
  show ?thesis
  proof (cases "s ! a = []")
    case True
    with assms(1) Some a look show ?thesis
      by (simp add: apply_custom_store_def apply_custom_def store_get_def)
  next
    case False
    with assms(1) Some a have "overlay_store (s ! a) (algorithm_at c) s = Some s'"
      by (simp add: apply_custom_store_def store_get_def)
    from overlay_store_config_of [OF this assms(2) dst] False look show ?thesis
      by (simp add: apply_custom_def)
  qed
qed

lemma apply_customs_store_config_of:
  "apply_customs_store c ts s = Some s' \<Longrightarrow> unshared_algorithm c \<Longrightarrow>
   list_all (\<lambda>a. a < length s) (config_addrs c) \<Longrightarrow>
   config_of s' c = fold apply_custom ts (config_of s c)"
proof (induction ts arbitrary: s)
  case Nil
  then show ?case by simp
next
  case (Cons t ts)
  from Cons.prems(1) obtain s1 where
    1: "apply_custom_store c t s = Some s1" and 2: "apply_customs_store c ts s1 = Some s'"
    by (auto split: option.splits)
  have "0 \<le> algorithm_at c" by simp
  from apply_custom_store_frame [OF 1 this] have "length s1 = length s" by simp
  with Cons.prems(3) have v1: "list_all (\<lambda>a. a < length s1) (config_addrs c)" by simp
  from Cons.IH [OF 2 Cons.prems(2) v1]
    apply_custom_store_config_of [OF 1 Cons.prems(2,3)]
  show ?case by simp
qed

text \<open>
  When the \<open>algorithm\<close> object of the configuration is not shared with a bundle or
  with \<open>distributed\<close>, the configuration that the store holds after the call is the
  value that \<open>update_config_w_custom\<close> computes from the values held before the call.
\<close>

theorem update_config_w_custom_store_refines:
  assumes run: "update_config_w_custom_store s c r = Some (c', s')"
    and valid: "valid_config s c" "valid_info s r"
    and unshared: "unshared_algorithm c"
  shows "config_of s' c' = update_config_w_custom (config_of s c) (info_of s r item)"
proof -
  define ts where "ts = dict_get name_remaps (analysis_in r) [analysis_in r]"
  from run obtain s1 s2 where
    dc: "deepcopy_store s c = Some (c', s1)"
    and ac: "apply_customs_store c' ts s1 = Some s2"
    by (auto simp: update_config_w_custom_store_def ts_def Let_def split: option.splits)
  from deepcopy_store_copies [OF dc valid(1)] unshared
  have c1: "config_of s1 c' = config_of s c" and un': "unshared_algorithm c'" by simp_all
  from deepcopy_store_frame [OF dc]
  have l1: "length s \<le> length s1" and t1: "take (length s) s1 = s"
    and v1: "list_all (\<lambda>b. length s \<le> b \<and> b < length s1) (config_addrs c')" by simp_all
  from v1 have v1': "list_all (\<lambda>a. a < length s1) (config_addrs c')"
    and dst: "length s \<le> algorithm_at c'"
    by (auto simp: list_all_iff config_addrs_def)
  from apply_customs_store_config_of [OF ac un' v1'] c1
  have c2: "config_of s2 c' = fold apply_custom ts (config_of s c)" by simp
  from apply_customs_store_frame [OF ac dst]
  have l2: "length s2 = length s1" and t2: "take (length s) s2 = s" using t1 by simp_all
  have pure: "update_config_w_custom (config_of s c) (info_of s r item)
                = overlay (case map_option ((!) s) (algorithm_in r) of None \<Rightarrow> [] | Some a \<Rightarrow> a)
                    (fold apply_custom ts (config_of s c))"
    by (simp add: update_config_w_custom_def deepcopy_def info_of_def ts_def Let_def)
  show ?thesis
  proof (cases "algorithm_in r")
    case None
    with run dc ac have "s' = s2"
      by (simp add: update_config_w_custom_store_def ts_def Let_def)
    with None c2 show ?thesis
      by (simp add: pure overlay_def iteritems_def)
  next
    case (Some a)
    with valid(2) have a: "a < length s" by (simp add: valid_info_def)
    then have "take (length s) s2 ! a = s2 ! a" by simp
    with t2 have sa: "s2 ! a = s ! a" by simp
    from a l1 l2 have a2: "a < length s2" by simp
    from run dc ac Some a2 sa have ov: "overlay_store (s ! a) (algorithm_at c') s2 = Some s'"
      by (auto simp: update_config_w_custom_store_def ts_def Let_def store_get_def
               split: option.splits)
    from v1' l2 have "algorithm_at c' < length s2" by (simp add: config_addrs_def)
    from overlay_store_config_of [OF ov un' this] c2 Some show ?thesis
      by (simp add: pure)
  qed
qed

theorem update_config_w_custom_store_refines_witness:
  "valid_config precedence_store precedence_config_refs
   \<and> valid_info precedence_store precedence_info_refs
   \<and> unshared_algorithm precedence_config_refs
   \<and> config_of [[(''x'', PInt 1)], [(''x'', PInt 2)], [(''x'', PInt 3)],
                   [(''x'', PInt 3)], [(''x'', PInt 2)]]
         \<lparr>algorithm_at = 3, custom_algorithms_at = [(Some ''Minimal'', 4)], distributed_at = None\<rparr>
       = update_config_w_custom (config_of precedence_store precedence_config_refs)
           (info_of precedence_store precedence_info_refs sample_A)"
proof -
  have a: "valid_config precedence_store precedence_config_refs"
    by (simp add: valid_config_def config_addrs_def precedence_store_def precedence_config_refs_def)
  have b: "valid_info precedence_store precedence_info_refs"
    by (simp add: valid_info_def precedence_store_def precedence_info_refs_def)
  have c: "unshared_algorithm precedence_config_refs"
    by (simp add: unshared_algorithm_def config_addrs_def precedence_config_refs_def)
  show ?thesis
    using a b c update_config_w_custom_store_refines [OF precedence_store_run a b c, of sample_A]
    by simp
qed

end
